theory Spec2Isabelle
  imports Main "HOL-Library.AList"
begin

section \<open>Numbers\<close>

text \<open>
  The plugin computes with JavaScript numbers. Their arithmetic is not redefined here: it
  is a parameter, the record \<open>ar\<close> that every definition below takes, over a type \<open>'n\<close>
  of numbers. It holds the operations and the constants that the code uses: \<open>+\<close>, \<open>-\<close>,
  \<open>*\<close>, \<open>>\<close>, \<open><\<close>, the literals \<open>0\<close> and \<open>1000\<close>, and NaN, which is what a property
  that an object does not have (\<open>undefined\<close>, here \<open>None\<close>) becomes in arithmetic.
  Whatever is proved holds for every such record, so for the arithmetic of the doubles.
\<close>

record 'n arith =
  js_add :: "'n \<Rightarrow> 'n \<Rightarrow> 'n"
  js_sub :: "'n \<Rightarrow> 'n \<Rightarrow> 'n"
  js_mul :: "'n \<Rightarrow> 'n \<Rightarrow> 'n"
  js_gt :: "'n \<Rightarrow> 'n \<Rightarrow> bool"
  js_lt :: "'n \<Rightarrow> 'n \<Rightarrow> bool"
  js_nan :: 'n
  js_zero :: 'n
  js_thousand :: 'n

definition to_number :: "'n arith \<Rightarrow> 'n option \<Rightarrow> 'n" where
  "to_number ar v = (case v of None \<Rightarrow> js_nan ar | Some x \<Rightarrow> x)"

section \<open>Reading a property of a plain object\<close>

text \<open>
  The two rule tables are object literals, and the store is read as a plain object. A read
  \<open>obj[key]\<close> gives the object's own property if it has one under that key. Otherwise it
  gives what every plain object inherits under that key, if anything: the function
  \<open>Object\<close> under \<open>constructor\<close>, and eleven other members. A plain object is the list
  of its own properties in the order of their creation.
\<close>

definition inherited :: "string list" where
  "inherited =
     [''constructor'', ''__defineGetter__'', ''__defineSetter__'', ''hasOwnProperty'',
      ''__lookupGetter__'', ''__lookupSetter__'', ''isPrototypeOf'', ''propertyIsEnumerable'',
      ''toString'', ''valueOf'', ''__proto__'', ''toLocaleString'']"

datatype 'a member = Own 'a | ObjectConstructor | InheritedOther | NoMember

definition get :: "(string \<times> 'a) list \<Rightarrow> string \<Rightarrow> 'a member" where
  "get obj key =
     (case map_of obj key of
        Some v \<Rightarrow> Own v
      | None \<Rightarrow>
          if key = ''constructor'' then ObjectConstructor
          else if List.member inherited key then InheritedOther
          else NoMember)"

text \<open>
  \<open>Object.values\<close> lists the values of the own properties: first those whose key is an
  array index (a decimal numeral without leading zero, at most \<open>2^32 - 2\<close>), by ascending
  index, then the others in the order of their creation.
\<close>

fun position :: "char \<Rightarrow> string \<Rightarrow> nat option" where
  "position c [] = None"
| "position c (d # ds) = (if c = d then Some 0 else map_option Suc (position c ds))"

fun decimal :: "string \<Rightarrow> nat \<Rightarrow> nat option" where
  "decimal [] acc = Some acc"
| "decimal (c # cs) acc =
     (case position c ''0123456789'' of
        None \<Rightarrow> None
      | Some d \<Rightarrow> decimal cs (10 * acc + d))"

definition array_index :: "string \<Rightarrow> nat option" where
  "array_index key =
     (if key = [] then None
      else if hd key = CHR ''0'' \<and> key \<noteq> ''0'' then None
      else case decimal key 0 of
             None \<Rightarrow> None
           | Some i \<Rightarrow> if i \<le> 4294967294 then Some i else None)"

definition is_indexed :: "string \<times> 'a \<Rightarrow> bool" where
  "is_indexed e = (array_index (fst e) \<noteq> None)"

definition index_of :: "string \<times> 'a \<Rightarrow> nat" where
  "index_of e = (case array_index (fst e) of None \<Rightarrow> 0 | Some i \<Rightarrow> i)"

definition object_values :: "(string \<times> 'a) list \<Rightarrow> 'a list" where
  "object_values obj =
     map snd (sort_key index_of (filter is_indexed obj) @ filter (\<lambda>e. \<not> is_indexed e) obj)"

section \<open>The timer record and the per-type rules\<close>

text \<open>
  A record made by \<open>_createTimer\<close> has no \<open>timestamp\<close>, and one made with the type
  \<open>constructor\<close> has no \<open>value\<close> either: these two fields are optional.
\<close>

record 'n timer =
  name :: string
  type :: string
  running :: bool
  elapsed :: bool
  timestamp :: "'n option"
  "value" :: "'n option"
  duration :: 'n

text \<open>
  \<open>timerFunctions.incrementing\<close> and \<open>timerFunctions.decrementing\<close>. Each reads the
  clock once (\<open>new Date().getTime()\<close>); the reading is the argument \<open>now\<close>.
\<close>

definition incrementing :: "'n arith \<Rightarrow> 'n \<Rightarrow> 'n timer \<Rightarrow> 'n timer" where
  "incrementing ar now timer =
     (let newTimer = timer\<lparr>timestamp := Some now\<rparr>;
          gap = js_sub ar (to_number ar (timestamp newTimer)) (to_number ar (timestamp timer));
          newTimer = newTimer\<lparr>value := Some (js_add ar (to_number ar (value newTimer)) gap)\<rparr>
      in newTimer\<lparr>elapsed := js_gt ar (to_number ar (value newTimer)) (duration newTimer)\<rparr>)"

definition decrementing :: "'n arith \<Rightarrow> 'n \<Rightarrow> 'n timer \<Rightarrow> 'n timer" where
  "decrementing ar now timer =
     (let newTimer = timer\<lparr>timestamp := Some now\<rparr>;
          gap = js_sub ar (to_number ar (timestamp newTimer)) (to_number ar (timestamp timer));
          newTimer = newTimer\<lparr>value := Some (js_sub ar (to_number ar (value newTimer)) gap)\<rparr>
      in newTimer\<lparr>elapsed := js_lt ar (to_number ar (value newTimer)) (js_zero ar)\<rparr>)"

definition timerFunctions :: "'n arith \<Rightarrow> (string \<times> ('n \<Rightarrow> 'n timer \<Rightarrow> 'n timer)) list" where
  "timerFunctions ar = [(''incrementing'', incrementing ar), (''decrementing'', decrementing ar)]"

definition reset_incrementing :: "'n arith \<Rightarrow> 'n timer \<Rightarrow> 'n timer" where
  "reset_incrementing ar timer = timer\<lparr>value := Some (js_zero ar)\<rparr>"

definition reset_decrementing :: "'n arith \<Rightarrow> 'n timer \<Rightarrow> 'n timer" where
  "reset_decrementing ar timer = timer\<lparr>value := Some (duration timer)\<rparr>"

definition timerResetFunctions :: "'n arith \<Rightarrow> (string \<times> ('n timer \<Rightarrow> 'n timer)) list" where
  "timerResetFunctions ar =
     [(''incrementing'', reset_incrementing ar), (''decrementing'', reset_decrementing ar)]"

section \<open>The plugin's surroundings: store, notifications, log, clock\<close>

datatype 'n action = SetTimerData string "'n timer" | DeleteTimer string

datatype 'n payload = TimerPayload "'n timer" | NamePayload string

datatype level = Debug | Info | Warn

datatype 'n message =
    UnrecognizedType string string
  | JurationParsed string 'n
  | Creating string string 'n
  | Deleting string
  | Resetting string
  | AlreadyPaused string
  | Pausing string
  | AlreadyRunning string
  | Resuming string

type_synonym 'n timers = "(string \<times> 'n timer) list"

record 'n world =
  state :: "'n timers"
  dispatched :: "'n action list"
  emitted :: "(string \<times> 'n payload) list"
  logged :: "(level \<times> 'n message) list"
  clock :: "nat \<Rightarrow> 'n"
  reads :: nat

text \<open>
  Modelled from the spec: the reducer is \<open>RH.keyedSetter\<close> of the host library, which is
  not part of the repository. The spec gives its contract as \<open>applySetter(name, Timer)\<close>
  and \<open>applyDelete(name)\<close> on a mapping from names to timers; the setter keeps the place
  of a key that is already there and appends a new one.
\<close>

definition pluginReducer :: "'n timers \<Rightarrow> 'n action \<Rightarrow> 'n timers" where
  "pluginReducer s a =
     (case a of
        SetTimerData k p \<Rightarrow> AList.update k p s
      | DeleteTimer k \<Rightarrow> AList.delete k s)"

definition dispatch :: "'n action \<Rightarrow> 'n world \<Rightarrow> 'n world" where
  "dispatch a w = w\<lparr>state := pluginReducer (state w) a, dispatched := dispatched w @ [a]\<rparr>"

definition emit :: "string \<Rightarrow> 'n payload \<Rightarrow> 'n world \<Rightarrow> 'n world" where
  "emit ev p w = w\<lparr>emitted := emitted w @ [(ev, p)]\<rparr>"

definition logger :: "level \<Rightarrow> 'n message \<Rightarrow> 'n world \<Rightarrow> 'n world" where
  "logger l m w = w\<lparr>logged := logged w @ [(l, m)]\<rparr>"

definition getTime :: "'n world \<Rightarrow> 'n \<times> 'n world" where
  "getTime w = (clock w (reads w), w\<lparr>reads := Suc (reads w)\<rparr>)"

text \<open>
  Modelled from the spec: \<open>_createTimer\<close> tests \<open>this.timers[timerName]\<close>, and the
  property \<open>timers\<close> is declared nowhere in the repository (every other operation reads
  \<open>this.state\<close>). The spec says that creation fails if the name already exists in the
  registry, so \<open>timers\<close> is taken to be the same object as \<open>state\<close>.
\<close>

definition timers :: "'n world \<Rightarrow> 'n timers" where
  "timers w = state w"

section \<open>The tick engine\<close>

text \<open>
  One iteration of the loop in \<open>_handleTimers\<close>. The test \<open>!timerFunction\<close> holds only if
  the table has no member at all under the type. Under \<open>constructor\<close> the table gives
  \<open>Object\<close>, which returns its argument: the record is written back as it is, and the
  clock is not read. For a type that names one of the other inherited members the code
  calls that member, which throws or returns something that is no timer; the model does
  not follow the code there and leaves the world as it is.
\<close>

definition handle_timer :: "'n arith \<Rightarrow> 'n timer \<Rightarrow> 'n world \<Rightarrow> 'n world" where
  "handle_timer ar timer w =
     (if \<not> running timer then w
      else case get (timerFunctions ar) (type timer) of
        NoMember \<Rightarrow> logger Warn (UnrecognizedType (name timer) (type timer)) w
      | Own timerFunction \<Rightarrow>
          (let (now, w1) = getTime w;
               newTimer = timerFunction now timer;
               w2 = dispatch (SetTimerData (name newTimer) newTimer) w1
           in if elapsed newTimer \<and> \<not> elapsed timer
              then emit ''timerElapsed'' (TimerPayload newTimer) w2
              else w2)
      | ObjectConstructor \<Rightarrow>
          (let newTimer = timer;
               w2 = dispatch (SetTimerData (name newTimer) newTimer) w
           in if elapsed newTimer \<and> \<not> elapsed timer
              then emit ''timerElapsed'' (TimerPayload newTimer) w2
              else w2)
      | InheritedOther \<Rightarrow> w)"

definition handleTimers :: "'n arith \<Rightarrow> 'n world \<Rightarrow> 'n world" where
  "handleTimers ar w = fold (handle_timer ar) (object_values (state w)) w"

section \<open>The registry operations\<close>

text \<open>
  \<open>Inherited key\<close> is no exception of the code. It marks the calls in which the code goes
  on with a member that the store or a table inherits under \<open>key\<close>, where the model does
  not follow it; the world is returned as it was at that point. \<open>TypeError\<close> is the call
  of something that is no function.
\<close>

datatype error =
    NotFound string
  | AlreadyExists string
  | InvalidDurationType
  | NonexistentType string string
  | TypeError
  | ParseError
  | Inherited string

datatype 'n duration_input = DString string | DNumber 'n | DOther

text \<open>
  \<open>_withTimer\<close>: the test \<open>!timer\<close> holds only if the store has no member at all under
  the name.
\<close>

definition withTimer ::
  "string \<Rightarrow> ('n timer \<Rightarrow> 'n world \<Rightarrow> (error + 'a) \<times> 'n world) \<Rightarrow> 'n world
     \<Rightarrow> (error + 'a) \<times> 'n world" where
  "withTimer timerName cb w =
     (case get (state w) timerName of
        NoMember \<Rightarrow> (Inl (NotFound timerName), w)
      | Own timer \<Rightarrow> cb timer w
      | ObjectConstructor \<Rightarrow> (Inl (Inherited timerName), w)
      | InheritedOther \<Rightarrow> (Inl (Inherited timerName), w))"

text \<open>
  \<open>juration.parse\<close> is an external library function from text to seconds, which may
  throw; it is the parameter \<open>parse\<close>. The duration argument is a string, a number or
  anything else. The existence test and the type test are truth tests of a property
  read, so they also see the inherited members. \<open>Object\<close> as reset rule returns the new
  record as it is, without a value.
\<close>

definition createTimer ::
  "'n arith \<Rightarrow> (string \<Rightarrow> error + 'n) \<Rightarrow> string \<Rightarrow> string \<Rightarrow> 'n duration_input \<Rightarrow> 'n world
     \<Rightarrow> (error + 'n timer) \<times> 'n world" where
  "createTimer ar parse timerName ty dur w =
     (if get (timers w) timerName \<noteq> NoMember then (Inl (AlreadyExists timerName), w)
      else
        case (case dur of
                DString s \<Rightarrow>
                  (case parse s of
                     Inl e \<Rightarrow> (Inl e, w)
                   | Inr secs \<Rightarrow>
                       (let parsed = js_mul ar secs (js_thousand ar)
                        in (Inr parsed, logger Debug (JurationParsed s parsed) w)))
              | DNumber n \<Rightarrow> (Inr n, w)
              | DOther \<Rightarrow> (Inl InvalidDurationType, w)) of
          (Inl e, w1) \<Rightarrow> (Inl e, w1)
        | (Inr d, w1) \<Rightarrow>
            (let timerFunction = get (timerFunctions ar) ty;
                 timerResetFunction = get (timerResetFunctions ar) ty
             in if timerFunction = NoMember then (Inl (NonexistentType timerName ty), w1)
                else
                  (let w2 = logger Info (Creating timerName ty d) w1;
                       seed = \<lparr>name = timerName, type = ty, running = False, elapsed = False,
                               timestamp = None, value = None, duration = d\<rparr>
                   in case (case timerResetFunction of
                              Own rule \<Rightarrow> Inr (rule seed)
                            | ObjectConstructor \<Rightarrow> Inr seed
                            | InheritedOther \<Rightarrow> Inl (Inherited ty)
                            | NoMember \<Rightarrow> Inl TypeError) of
                        Inl e \<Rightarrow> (Inl e, w2)
                      | Inr newTimer \<Rightarrow>
                          (let w3 = dispatch (SetTimerData (name newTimer) newTimer) w2;
                               w4 = emit ''timerCreated'' (TimerPayload newTimer) w3
                           in (Inr newTimer, w4)))))"

definition deleteTimer :: "string \<Rightarrow> 'n world \<Rightarrow> (error + bool) \<times> 'n world" where
  "deleteTimer timerName =
     withTimer timerName (\<lambda>timer w.
       (let w1 = logger Info (Deleting (name timer)) w;
            w2 = dispatch (DeleteTimer (name timer)) w1;
            w3 = emit ''timerDeleted'' (NamePayload timerName) w2
        in (Inr True, w3)))"

text \<open>
  The argument \<open>pause\<close> of \<open>_resetTimer\<close> is whatever the command payload holds. Left
  out (\<open>undefined\<close>) it defaults to true; otherwise only its truth value is used, in
  \<open>!pause\<close>. \<open>OtherFalsy\<close> stands for the values other than \<open>false\<close> that count as false
  (\<open>null\<close>, \<open>0\<close>, the empty string, NaN), \<open>OtherTruthy\<close> for every value other than
  \<open>true\<close> that counts as true.
\<close>

datatype argument = Omitted | Boolean bool | OtherFalsy | OtherTruthy

definition truthy :: "argument \<Rightarrow> bool" where
  "truthy a = (case a of Omitted \<Rightarrow> False | Boolean b \<Rightarrow> b | OtherFalsy \<Rightarrow> False | OtherTruthy \<Rightarrow> True)"

definition resetTimer ::
  "'n arith \<Rightarrow> string \<Rightarrow> argument \<Rightarrow> 'n world \<Rightarrow> (error + 'n timer) \<times> 'n world" where
  "resetTimer ar timerName pause_arg =
     (let pause = (if pause_arg = Omitted then Boolean True else pause_arg)
      in withTimer timerName (\<lambda>timer w.
           (let w1 = logger Info (Resetting (name timer)) w
            in case (case get (timerResetFunctions ar) (type timer) of
                       Own rule \<Rightarrow> Inr (rule timer)
                     | ObjectConstructor \<Rightarrow> Inr timer
                     | InheritedOther \<Rightarrow> Inl (Inherited (type timer))
                     | NoMember \<Rightarrow> Inl TypeError) of
                 Inl e \<Rightarrow> (Inl e, w1)
               | Inr newTimer \<Rightarrow>
                   (let newTimer = newTimer\<lparr>running := \<not> truthy pause\<rparr>;
                        newTimer = newTimer\<lparr>elapsed := False\<rparr>;
                        w2 = dispatch (SetTimerData (name newTimer) newTimer) w1;
                        w3 = emit ''timerReset'' (TimerPayload newTimer) w2
                    in (Inr newTimer, w3)))))"

text \<open>
  \<open>_pauseTimer\<close> and \<open>_resumeTimer\<close> return the new record, or nothing (\<open>undefined\<close>,
  here \<open>None\<close>) on the branch that only logs a warning.
\<close>

definition pauseTimer :: "string \<Rightarrow> 'n world \<Rightarrow> (error + 'n timer option) \<times> 'n world" where
  "pauseTimer timerName =
     withTimer timerName (\<lambda>timer w.
       if \<not> running timer then (Inr None, logger Warn (AlreadyPaused (name timer)) w)
       else
         (let w1 = logger Info (Pausing (name timer)) w;
              newTimer = timer\<lparr>running := False\<rparr>;
              w2 = dispatch (SetTimerData (name newTimer) newTimer) w1;
              w3 = emit ''timerPaused'' (TimerPayload newTimer) w2
          in (Inr (Some newTimer), w3)))"

definition resumeTimer :: "string \<Rightarrow> 'n world \<Rightarrow> (error + 'n timer option) \<times> 'n world" where
  "resumeTimer timerName =
     withTimer timerName (\<lambda>timer w.
       if running timer then (Inr None, logger Warn (AlreadyRunning (name timer)) w)
       else
         (let w1 = logger Info (Resuming (name timer)) w;
              newTimer = timer\<lparr>running := True\<rparr>;
              (now, w2) = getTime w1;
              newTimer = newTimer\<lparr>timestamp := Some now\<rparr>;
              w3 = dispatch (SetTimerData (name newTimer) newTimer) w2;
              w4 = emit ''timerResumed'' (TimerPayload newTimer) w3
          in (Inr (Some newTimer), w4)))"

definition toggleTimer :: "string \<Rightarrow> 'n world \<Rightarrow> (error + 'n timer option) \<times> 'n world" where
  "toggleTimer timerName =
     withTimer timerName (\<lambda>timer.
       (let fn = (if running timer then pauseTimer else resumeTimer)
        in fn timerName))"

section \<open>Predicates used to state the properties\<close>

text \<open>
  The store is a JavaScript object, so its keys are distinct, and every write the plugin
  makes uses the record's own \<open>name\<close> as the key: in every store the plugin has built,
  each timer sits under its name. \<open>keys_named\<close> is that invariant.
\<close>

definition keys_named :: "'n timers \<Rightarrow> bool" where
  "keys_named s = (distinct (map fst s) \<and> list_all (\<lambda>(k, t). name t = k) s)"

text \<open>
  What a tick does with a timer depends on what the table has under its type. A timer is
  \<open>active\<close> if its update rule runs, which reads the clock; \<open>written\<close> if the tick
  dispatches a record for it; \<open>unrecognized\<close> if the tick only warns about it.
  \<open>advanced ar now t\<close> is the record that the tick leaves for \<open>t\<close> when the clock reads
  \<open>now\<close>. The scan reads the clock once for each active timer: \<open>read_index ar ts n\<close> is
  the number of readings taken before the one for the timer named \<open>n\<close>.
  \<open>crossing ar now t\<close> says that the tick takes the elapsed flag of \<open>t\<close> from false to
  true.
\<close>

definition active :: "'n arith \<Rightarrow> 'n timer \<Rightarrow> bool" where
  "active ar t =
     (running t \<and> (case get (timerFunctions ar) (type t) of Own f \<Rightarrow> True | _ \<Rightarrow> False))"

definition written :: "'n arith \<Rightarrow> 'n timer \<Rightarrow> bool" where
  "written ar t =
     (running t \<and>
      (case get (timerFunctions ar) (type t) of
         Own f \<Rightarrow> True | ObjectConstructor \<Rightarrow> True | _ \<Rightarrow> False))"

definition unrecognized :: "'n arith \<Rightarrow> 'n timer \<Rightarrow> bool" where
  "unrecognized ar t = (running t \<and> get (timerFunctions ar) (type t) = NoMember)"

definition advanced :: "'n arith \<Rightarrow> 'n \<Rightarrow> 'n timer \<Rightarrow> 'n timer" where
  "advanced ar now t =
     (if running t
      then (case get (timerFunctions ar) (type t) of Own f \<Rightarrow> f now t | _ \<Rightarrow> t)
      else t)"

definition read_index :: "'n arith \<Rightarrow> 'n timer list \<Rightarrow> string \<Rightarrow> nat" where
  "read_index ar ts n = length (filter (active ar) (takeWhile (\<lambda>t. name t \<noteq> n) ts))"

definition crossing :: "'n arith \<Rightarrow> 'n \<Rightarrow> 'n timer \<Rightarrow> bool" where
  "crossing ar now t = (elapsed (advanced ar now t) \<and> \<not> elapsed t)"

text \<open>Reading the notifications, the dispatched actions and the store.\<close>

definition elapsed_for :: "string \<Rightarrow> string \<times> 'n payload \<Rightarrow> bool" where
  "elapsed_for n e =
     (fst e = ''timerElapsed'' \<and> (case snd e of TimerPayload t \<Rightarrow> name t = n | NamePayload _ \<Rightarrow> False))"

definition action_key :: "'n action \<Rightarrow> string" where
  "action_key a = (case a of SetTimerData k p \<Rightarrow> k | DeleteTimer k \<Rightarrow> k)"

definition is_running :: "'n timers \<Rightarrow> string \<Rightarrow> bool" where
  "is_running s n = (case map_of s n of None \<Rightarrow> False | Some t \<Rightarrow> running t)"

definition no_timestamp :: "'n timers \<Rightarrow> string \<Rightarrow> bool" where
  "no_timestamp s n = (case map_of s n of None \<Rightarrow> True | Some t \<Rightarrow> timestamp t = None)"

text \<open>
  Where the model follows the code. A name \<open>reads_inherited\<close> in a store if the store has
  no timer under it and the read finds an inherited member instead. A type is
  \<open>followed\<close> if it is not one of the inherited names other than \<open>constructor\<close>.
\<close>

definition reads_inherited :: "'n timers \<Rightarrow> string \<Rightarrow> bool" where
  "reads_inherited s m = (map_of s m = None \<and> List.member inherited m)"

definition followed :: "string \<Rightarrow> bool" where
  "followed ty = (ty = ''constructor'' \<or> \<not> List.member inherited ty)"

definition types_followed :: "'n timers \<Rightarrow> bool" where
  "types_followed s = list_all (\<lambda>(k, t). followed (type t)) s"

text \<open>
  \<open>pauses p\<close>: the truth value that \<open>_resetTimer\<close> takes from its argument \<open>pause\<close>.
  \<open>reset_record ar t\<close>: what the reset rule of the type of \<open>t\<close> returns for \<open>t\<close>, where
  the model follows the call. \<open>created ar n ty d\<close>: the same for the new record in
  \<open>_createTimer\<close>.
\<close>

definition pauses :: "argument \<Rightarrow> bool" where
  "pauses p = truthy (if p = Omitted then Boolean True else p)"

definition reset_record :: "'n arith \<Rightarrow> 'n timer \<Rightarrow> 'n timer option" where
  "reset_record ar t =
     (case get (timerResetFunctions ar) (type t) of
        Own rule \<Rightarrow> Some (rule t) | ObjectConstructor \<Rightarrow> Some t | _ \<Rightarrow> None)"

definition created :: "'n arith \<Rightarrow> string \<Rightarrow> string \<Rightarrow> 'n \<Rightarrow> 'n timer option" where
  "created ar n ty d =
     reset_record ar
       \<lparr>name = n, type = ty, running = False, elapsed = False, timestamp = None, value = None,
        duration = d\<rparr>"

text \<open>
  \<open>without k w\<close> is the world \<open>w\<close> with the timer under \<open>k\<close> taken out of the store;
  \<open>agree_without k w w0\<close> says that \<open>w0\<close> is \<open>w\<close> except for that timer and for the log.
\<close>

definition without :: "string \<Rightarrow> 'n world \<Rightarrow> 'n world" where
  "without k w = w\<lparr>state := AList.delete k (state w)\<rparr>"

definition agree_without :: "string \<Rightarrow> 'n world \<Rightarrow> 'n world \<Rightarrow> bool" where
  "agree_without k w w0 =
     (state w0 = AList.delete k (state w) \<and> dispatched w0 = dispatched w \<and>
      emitted w0 = emitted w \<and> clock w0 = clock w \<and> reads w0 = reads w)"

text \<open>
  The worlds that the model reaches from an empty store by ticks and registry operations,
  in any order and with any arguments.
\<close>

inductive reachable :: "'n arith \<Rightarrow> 'n world \<Rightarrow> bool" for ar :: "'n arith" where
  initial: "state w = [] \<Longrightarrow> reachable ar w"
| tick: "reachable ar w \<Longrightarrow> reachable ar (handleTimers ar w)"
| create: "reachable ar w \<Longrightarrow> reachable ar (snd (createTimer ar parse n ty dur w))"
| delete: "reachable ar w \<Longrightarrow> reachable ar (snd (deleteTimer n w))"
| reset: "reachable ar w \<Longrightarrow> reachable ar (snd (resetTimer ar n p w))"
| pause: "reachable ar w \<Longrightarrow> reachable ar (snd (pauseTimer n w))"
| resume: "reachable ar w \<Longrightarrow> reachable ar (snd (resumeTimer n w))"
| toggle: "reachable ar w \<Longrightarrow> reachable ar (snd (toggleTimer n w))"

section \<open>Sample arithmetic, timers and worlds\<close>

text \<open>
  The samples compute with whole numbers of milliseconds below \<open>2^53\<close>, where the
  arithmetic of the doubles is that of the integers. \<open>Inexact\<close> stands for every result
  outside that range, which this sample arithmetic does not compute.
\<close>

datatype sample_number = Whole int | NaN | Inexact

definition exact :: "int \<Rightarrow> sample_number" where
  "exact i = (if \<bar>i\<bar> < 9007199254740992 then Whole i else Inexact)"

fun whole_add :: "sample_number \<Rightarrow> sample_number \<Rightarrow> sample_number" where
  "whole_add (Whole a) (Whole b) = exact (a + b)"
| "whole_add NaN _ = NaN"
| "whole_add _ NaN = NaN"
| "whole_add _ _ = Inexact"

fun whole_sub :: "sample_number \<Rightarrow> sample_number \<Rightarrow> sample_number" where
  "whole_sub (Whole a) (Whole b) = exact (a - b)"
| "whole_sub NaN _ = NaN"
| "whole_sub _ NaN = NaN"
| "whole_sub _ _ = Inexact"

fun whole_mul :: "sample_number \<Rightarrow> sample_number \<Rightarrow> sample_number" where
  "whole_mul (Whole a) (Whole b) = exact (a * b)"
| "whole_mul NaN _ = NaN"
| "whole_mul _ NaN = NaN"
| "whole_mul _ _ = Inexact"

fun whole_gt :: "sample_number \<Rightarrow> sample_number \<Rightarrow> bool" where
  "whole_gt (Whole a) (Whole b) = (a > b)"
| "whole_gt _ _ = False"

fun whole_lt :: "sample_number \<Rightarrow> sample_number \<Rightarrow> bool" where
  "whole_lt (Whole a) (Whole b) = (a < b)"
| "whole_lt _ _ = False"

definition whole :: "sample_number arith" where
  "whole =
     \<lparr>js_add = whole_add, js_sub = whole_sub, js_mul = whole_mul, js_gt = whole_gt,
      js_lt = whole_lt, js_nan = NaN, js_zero = Whole 0, js_thousand = Whole 1000\<rparr>"

text \<open>
  A clock that advances by the default tick period; a running incrementing timer close to
  its duration; a paused timer as \<open>createTimer\<close> leaves it; a running timer of a type
  that the table has nothing under; a running timer of type \<open>constructor\<close>; a parser
  that rejects everything.
\<close>

definition sample_clock :: "nat \<Rightarrow> sample_number" where
  "sample_clock i = Whole (1096 + 96 * int i)"

definition sample_timer :: "sample_number timer" where
  "sample_timer =
     \<lparr>name = ''t'', type = ''incrementing'', running = True, elapsed = False,
      timestamp = Some (Whole 1000), value = Some (Whole 4990), duration = Whole 5000\<rparr>"

definition sample_world :: "sample_number world" where
  "sample_world =
     \<lparr>state = [(''t'', sample_timer)], dispatched = [], emitted = [], logged = [],
      clock = sample_clock, reads = 0\<rparr>"

definition paused_world :: "sample_number world" where
  "paused_world =
     \<lparr>state = [(''t'', sample_timer\<lparr>running := False\<rparr>)], dispatched = [], emitted = [],
      logged = [], clock = sample_clock, reads = 0\<rparr>"

definition fresh_world :: "sample_number world" where
  "fresh_world =
     \<lparr>state = [(''u'', \<lparr>name = ''u'', type = ''decrementing'', running = False, elapsed = False,
                         timestamp = None, value = Some (Whole 60000), duration = Whole 60000\<rparr>)],
      dispatched = [], emitted = [], logged = [], clock = sample_clock, reads = 0\<rparr>"

definition empty_world :: "sample_number world" where
  "empty_world =
     \<lparr>state = [], dispatched = [], emitted = [], logged = [], clock = sample_clock, reads = 0\<rparr>"

definition odd_timer :: "sample_number timer" where
  "odd_timer =
     \<lparr>name = ''x'', type = ''stopwatch'', running = True, elapsed = False,
      timestamp = Some (Whole 1000), value = Some (Whole 7), duration = Whole 10\<rparr>"

definition mixed_world :: "sample_number world" where
  "mixed_world =
     \<lparr>state = [(''x'', odd_timer), (''t'', sample_timer)], dispatched = [], emitted = [],
      logged = [], clock = sample_clock, reads = 0\<rparr>"

definition constructor_timer :: "sample_number timer" where
  "constructor_timer =
     \<lparr>name = ''c'', type = ''constructor'', running = True, elapsed = False,
      timestamp = Some (Whole 1096), value = None, duration = Whole 5\<rparr>"

definition constructor_world :: "sample_number world" where
  "constructor_world =
     \<lparr>state = [(''c'', constructor_timer)], dispatched = [], emitted = [], logged = [],
      clock = sample_clock, reads = 0\<rparr>"

definition no_parse :: "string \<Rightarrow> error + sample_number" where
  "no_parse s = Inl ParseError"

section \<open>Reading the tables and the store\<close>

lemma get_Own: "get obj key = Own v \<longleftrightarrow> map_of obj key = Some v"
  by (auto simp: get_def split: option.splits)

lemma constructor_inherited: "List.member inherited ''constructor''"
  by (simp add: inherited_def)

lemma get_NoMember:
  "get obj key = NoMember \<longleftrightarrow> map_of obj key = None \<and> \<not> List.member inherited key"
  using constructor_inherited by (auto simp: get_def split: option.splits)

lemma get_found: "map_of obj key = Some v \<Longrightarrow> get obj key = Own v"
  by (simp add: get_def)

lemma get_absent:
  "map_of obj key = None \<Longrightarrow> \<not> List.member inherited key \<Longrightarrow> get obj key = NoMember"
  by (simp add: get_NoMember)

lemma get_timerFunctions:
  "get (timerFunctions ar) ty =
     (if ty = ''incrementing'' then Own (incrementing ar)
      else if ty = ''decrementing'' then Own (decrementing ar)
      else if ty = ''constructor'' then ObjectConstructor
      else if List.member inherited ty then InheritedOther
      else NoMember)"
  by (simp add: get_def timerFunctions_def)

lemma get_timerResetFunctions:
  "get (timerResetFunctions ar) ty =
     (if ty = ''incrementing'' then Own (reset_incrementing ar)
      else if ty = ''decrementing'' then Own (reset_decrementing ar)
      else if ty = ''constructor'' then ObjectConstructor
      else if List.member inherited ty then InheritedOther
      else NoMember)"
  by (simp add: get_def timerResetFunctions_def)

lemma timerFunctions_frame:
  assumes "get (timerFunctions ar) ty = Own f"
  shows "name (f now t) = name t" "type (f now t) = type t" "running (f now t) = running t"
    "duration (f now t) = duration t" "timestamp (f now t) = Some now"
  using assms
  by (auto simp: get_timerFunctions incrementing_def decrementing_def Let_def split: if_splits)

lemma timerResetFunctions_frame:
  assumes "get (timerResetFunctions ar) ty = Own r"
  shows "name (r t) = name t" "type (r t) = type t" "running (r t) = running t"
    "duration (r t) = duration t" "timestamp (r t) = timestamp t" "elapsed (r t) = elapsed t"
  using assms
  by (auto simp: get_timerResetFunctions reset_incrementing_def reset_decrementing_def
      split: if_splits)

lemma advanced_frame:
  "name (advanced ar now t) = name t" "type (advanced ar now t) = type t"
  "running (advanced ar now t) = running t" "duration (advanced ar now t) = duration t"
  by (auto simp: advanced_def timerFunctions_frame split: member.splits)

lemma advanced_idle: "\<not> active ar t \<Longrightarrow> advanced ar now t = t"
  by (auto simp: advanced_def active_def split: member.splits)

lemma advanced_active:
  "running t \<Longrightarrow> get (timerFunctions ar) (type t) = Own f \<Longrightarrow> advanced ar now t = f now t"
  by (simp add: advanced_def)

lemma active_written: "active ar t \<Longrightarrow> written ar t"
  by (auto simp: active_def written_def split: member.splits)

section \<open>One loop iteration, field by field\<close>

lemma handle_timer_store:
  "state (handle_timer ar t w) =
     (if written ar t
      then AList.update (name t) (advanced ar (clock w (reads w)) t) (state w)
      else state w)"
  by (cases "running t"; cases "get (timerFunctions ar) (type t)")
    (auto simp: handle_timer_def written_def advanced_def getTime_def logger_def dispatch_def
      emit_def Let_def pluginReducer_def timerFunctions_frame)

lemma handle_timer_dispatched:
  "dispatched (handle_timer ar t w) =
     dispatched w @
     (if written ar t then [SetTimerData (name t) (advanced ar (clock w (reads w)) t)] else [])"
  by (cases "running t"; cases "get (timerFunctions ar) (type t)")
    (auto simp: handle_timer_def written_def advanced_def getTime_def logger_def dispatch_def
      emit_def Let_def timerFunctions_frame)

lemma handle_timer_emitted:
  "emitted (handle_timer ar t w) =
     emitted w @
     (if crossing ar (clock w (reads w)) t
      then [(''timerElapsed'', TimerPayload (advanced ar (clock w (reads w)) t))]
      else [])"
  by (cases "running t"; cases "get (timerFunctions ar) (type t)")
    (auto simp: handle_timer_def crossing_def advanced_def getTime_def logger_def dispatch_def
      emit_def Let_def)

lemma handle_timer_logged:
  "logged (handle_timer ar t w) =
     logged w @ (if unrecognized ar t then [(Warn, UnrecognizedType (name t) (type t))] else [])"
  by (cases "running t"; cases "get (timerFunctions ar) (type t)")
    (auto simp: handle_timer_def unrecognized_def getTime_def logger_def dispatch_def
      emit_def Let_def)

lemma handle_timer_clock [simp]: "clock (handle_timer ar t w) = clock w"
  by (cases "running t"; cases "get (timerFunctions ar) (type t)")
    (auto simp: handle_timer_def getTime_def logger_def dispatch_def emit_def Let_def)

lemma handle_timer_reads:
  "reads (handle_timer ar t w) = reads w + (if active ar t then 1 else 0)"
  by (cases "running t"; cases "get (timerFunctions ar) (type t)")
    (auto simp: handle_timer_def active_def getTime_def logger_def dispatch_def emit_def Let_def)

lemma handle_timer_state:
  "map_of (state (handle_timer ar t w)) =
     (if written ar t
      then (map_of (state w))(name t \<mapsto> advanced ar (clock w (reads w)) t)
      else map_of (state w))"
  by (simp add: handle_timer_store update_conv')

lemma handle_timer_filter:
  "filter (elapsed_for n) (emitted (handle_timer ar t w)) =
     filter (elapsed_for n) (emitted w) @
     (if name t = n \<and> crossing ar (clock w (reads w)) t
      then [(''timerElapsed'', TimerPayload (advanced ar (clock w (reads w)) t))]
      else [])"
  by (auto simp: handle_timer_emitted elapsed_for_def advanced_frame)

section \<open>The scan\<close>

lemma fold_clock [simp]: "clock (fold (handle_timer ar) ts w) = clock w"
  by (induction ts arbitrary: w) simp_all

lemma fold_reads:
  "reads (fold (handle_timer ar) ts w) = reads w + length (filter (active ar) ts)"
  by (induction ts arbitrary: w) (simp_all add: handle_timer_reads)

lemma fold_state_other:
  "n \<notin> name ` set ts \<Longrightarrow> map_of (state (fold (handle_timer ar) ts w)) n = map_of (state w) n"
  by (induction ts arbitrary: w) (auto simp: handle_timer_state)

lemma fold_state:
  assumes "distinct (map name ts)" "t \<in> set ts"
  shows "map_of (state (fold (handle_timer ar) ts w)) (name t) =
     (if written ar t
      then Some (advanced ar (clock w (reads w + read_index ar ts (name t))) t)
      else map_of (state w) (name t))"
  using assms
proof (induction ts arbitrary: w)
  case Nil
  then show ?case by simp
next
  case (Cons a ts)
  show ?case
  proof (cases "a = t")
    case True
    with Cons.prems have "name t \<notin> name ` set ts" by auto
    then show ?thesis using True
      by (simp add: fold_state_other handle_timer_state read_index_def)
  next
    case False
    with Cons.prems have t: "t \<in> set ts" and ne: "name a \<noteq> name t" and d: "distinct (map name ts)"
      by auto
    show ?thesis
      using Cons.IH[OF d t, of "handle_timer ar a w"] ne
      by (auto simp: handle_timer_state handle_timer_reads read_index_def)
  qed
qed

lemma fold_emitted_append:
  "\<exists>es. emitted (fold (handle_timer ar) ts w) = emitted w @ es \<and>
        list_all (\<lambda>e. fst e = ''timerElapsed'') es"
proof (induction ts arbitrary: w)
  case Nil
  then show ?case by simp
next
  case (Cons a ts)
  obtain es where es:
    "emitted (fold (handle_timer ar) ts (handle_timer ar a w)) = emitted (handle_timer ar a w) @ es"
    "list_all (\<lambda>e. fst e = ''timerElapsed'') es"
    using Cons.IH by blast
  show ?case
    using es by (simp add: handle_timer_emitted)
qed

lemma fold_filter_other:
  "n \<notin> name ` set ts \<Longrightarrow>
   filter (elapsed_for n) (emitted (fold (handle_timer ar) ts w)) =
   filter (elapsed_for n) (emitted w)"
  by (induction ts arbitrary: w) (auto simp: handle_timer_filter)

lemma fold_filter:
  assumes "distinct (map name ts)" "t \<in> set ts"
  shows "filter (elapsed_for (name t)) (emitted (fold (handle_timer ar) ts w)) =
     filter (elapsed_for (name t)) (emitted w) @
     (if crossing ar (clock w (reads w + read_index ar ts (name t))) t
      then [(''timerElapsed'',
             TimerPayload (advanced ar (clock w (reads w + read_index ar ts (name t))) t))]
      else [])"
  using assms
proof (induction ts arbitrary: w)
  case Nil
  then show ?case by simp
next
  case (Cons a ts)
  show ?case
  proof (cases "a = t")
    case True
    with Cons.prems have "name t \<notin> name ` set ts" by auto
    then show ?thesis using True
      by (simp add: fold_filter_other handle_timer_filter read_index_def)
  next
    case False
    with Cons.prems have t: "t \<in> set ts" and ne: "name a \<noteq> name t" and d: "distinct (map name ts)"
      by auto
    show ?thesis
      using Cons.IH[OF d t, of "handle_timer ar a w"] ne
      by (auto simp: handle_timer_filter handle_timer_reads read_index_def)
  qed
qed

lemma fold_logged:
  "logged (fold (handle_timer ar) ts w) =
     logged w @
     map (\<lambda>t. (Warn, UnrecognizedType (name t) (type t))) (filter (unrecognized ar) ts)"
  by (induction ts arbitrary: w) (simp_all add: handle_timer_logged)

lemma fold_dispatched:
  "\<exists>ds. dispatched (fold (handle_timer ar) ts w) = dispatched w @ ds \<and>
        action_key ` set ds \<subseteq> name ` {t \<in> set ts. written ar t}"
proof (induction ts arbitrary: w)
  case Nil
  then show ?case by simp
next
  case (Cons a ts)
  obtain ds where ds: "dispatched (fold (handle_timer ar) ts (handle_timer ar a w)) =
      dispatched (handle_timer ar a w) @ ds"
    "action_key ` set ds \<subseteq> name ` {t \<in> set ts. written ar t}"
    using Cons.IH by blast
  show ?case
    using ds by (auto simp: handle_timer_dispatched action_key_def)
qed

section \<open>The store invariant\<close>

lemma keys_named_names:
  "list_all (\<lambda>(k, t). name t = k) s \<Longrightarrow> map name (map snd s) = map fst s"
  by (induction s) auto

lemma object_values_set [simp]: "set (object_values obj) = snd ` set obj"
  by (auto simp: object_values_def)

lemma object_values_distinct:
  assumes "keys_named s"
  shows "distinct (map name (object_values s))"
proof -
  let ?xs = "sort_key index_of (filter is_indexed s) @ filter (\<lambda>e. \<not> is_indexed e) s"
  from assms have d: "distinct (map fst s)" and nm: "list_all (\<lambda>(k, t). name t = k) s"
    by (simp_all add: keys_named_def)
  have sub: "set ?xs = set s" by auto
  have "list_all (\<lambda>(k, t). name t = k) ?xs"
    using nm sub unfolding list_all_iff by blast
  then have names: "map name (map snd ?xs) = map fst ?xs" by (rule keys_named_names)
  from d have ds: "distinct s" and inj: "inj_on fst (set s)"
    by (simp_all add: distinct_map)
  have dx: "distinct ?xs" using ds by auto
  have ix: "inj_on fst (set ?xs)" unfolding sub by (rule inj)
  from dx ix have "distinct (map fst ?xs)" unfolding distinct_map by blast
  then show ?thesis unfolding object_values_def names .
qed

lemma keys_named_lookup:
  "keys_named s \<Longrightarrow> map_of s n = Some t \<Longrightarrow> t \<in> set (object_values s) \<and> name t = n"
  by (auto simp: keys_named_def list_all_iff dest!: map_of_SomeD intro: rev_image_eqI)

lemma keys_named_absent:
  assumes "keys_named s" "map_of s n = None"
  shows "n \<notin> name ` set (object_values s)"
proof
  assume "n \<in> name ` set (object_values s)"
  then obtain k t where kt: "(k, t) \<in> set s" "name t = n" by auto
  with assms(1) have "k = n" by (auto simp: keys_named_def list_all_iff)
  with kt assms(2) show False by (auto simp: map_of_eq_None_iff intro: rev_image_eqI)
qed

lemma keys_named_entry:
  assumes "keys_named s" "t \<in> set (object_values s)"
  shows "map_of s (name t) = Some t"
proof -
  from assms(2) obtain j where j: "(j, t) \<in> set s" by auto
  with assms(1) have "name t = j" by (auto simp: keys_named_def list_all_iff)
  with j assms(1) show ?thesis by (simp add: keys_named_def)
qed

lemma list_all_update:
  "list_all P s \<Longrightarrow> P (k, v) \<Longrightarrow> list_all P (AList.update k v s)"
  by (induction s) auto

lemma list_all_delete: "list_all P s \<Longrightarrow> list_all P (AList.delete k s)"
  by (induction s) auto

lemma keys_named_update:
  "keys_named s \<Longrightarrow> name t = k \<Longrightarrow> keys_named (AList.update k t s)"
  unfolding keys_named_def
  by (simp add: distinct_update list_all_update)

lemma keys_named_delete: "keys_named s \<Longrightarrow> keys_named (AList.delete k s)"
  unfolding keys_named_def
  by (simp add: distinct_delete list_all_delete)

lemma keys_named_handle_timer:
  "keys_named (state w) \<Longrightarrow> keys_named (state (handle_timer ar t w))"
  by (simp add: handle_timer_store keys_named_update advanced_frame)

lemma keys_named_fold:
  "keys_named (state w) \<Longrightarrow> keys_named (state (fold (handle_timer ar) ts w))"
  by (induction ts arbitrary: w) (simp_all add: keys_named_handle_timer)

lemma keys_named_handleTimers:
  "keys_named (state w) \<Longrightarrow> keys_named (state (handleTimers ar w))"
  by (simp add: handleTimers_def keys_named_fold)

section \<open>One tick, timer by timer\<close>

lemma tick_state:
  assumes "keys_named (state w)" "map_of (state w) n = Some t"
  shows "map_of (state (handleTimers ar w)) n =
     Some (advanced ar (clock w (reads w + read_index ar (object_values (state w)) n)) t)"
proof -
  from keys_named_lookup[OF assms] have t: "t \<in> set (object_values (state w))" and n: "name t = n"
    by simp_all
  have idle: "\<not> written ar t \<Longrightarrow> advanced ar now t = t" for now
    by (auto simp: advanced_def written_def split: member.splits)
  show ?thesis
    using fold_state[OF object_values_distinct[OF assms(1)] t, of ar w] assms(2) n idle
    by (simp add: handleTimers_def)
qed

lemma tick_state_absent:
  assumes "keys_named (state w)" "map_of (state w) n = None"
  shows "map_of (state (handleTimers ar w)) n = None"
  using fold_state_other[OF keys_named_absent[OF assms], of ar w] assms(2)
  by (simp add: handleTimers_def)

lemma tick_new_events:
  assumes "keys_named (state w)" "map_of (state w) n = Some t"
  shows "filter (elapsed_for n) (drop (length (emitted w)) (emitted (handleTimers ar w))) =
     (if crossing ar (clock w (reads w + read_index ar (object_values (state w)) n)) t
      then [(''timerElapsed'',
             TimerPayload (advanced ar (clock w (reads w + read_index ar (object_values (state w)) n)) t))]
      else [])"
proof -
  from keys_named_lookup[OF assms] have t: "t \<in> set (object_values (state w))" and n: "name t = n"
    by simp_all
  obtain es where es: "emitted (handleTimers ar w) = emitted w @ es"
    using fold_emitted_append[of ar "object_values (state w)" w] by (auto simp: handleTimers_def)
  have "filter (elapsed_for n) (emitted w) @ filter (elapsed_for n) es =
        filter (elapsed_for n) (emitted w) @
        (if crossing ar (clock w (reads w + read_index ar (object_values (state w)) n)) t
         then [(''timerElapsed'',
             TimerPayload (advanced ar (clock w (reads w + read_index ar (object_values (state w)) n)) t))]
         else [])"
    using fold_filter[OF object_values_distinct[OF assms(1)] t, of ar w] n es
    by (simp add: handleTimers_def)
  then show ?thesis using es by simp
qed

section \<open>What each registry operation does to the store\<close>

lemma reset_record_frame:
  assumes "reset_record ar t = Some r"
  shows "name r = name t" "type r = type t" "running r = running t"
    "duration r = duration t" "timestamp r = timestamp t" "elapsed r = elapsed t"
  using assms
  by (auto simp: reset_record_def timerResetFunctions_frame split: member.splits)

lemma withTimer_found:
  "map_of (state w) n = Some t \<Longrightarrow> withTimer n cb w = cb t w"
  by (simp add: withTimer_def get_found)

lemma withTimer_missing:
  "map_of (state w) n = None \<Longrightarrow> snd (withTimer n cb w) = w"
  by (simp add: withTimer_def get_def)

lemma withTimer_absent:
  "map_of (state w) n = None \<Longrightarrow> \<not> List.member inherited n \<Longrightarrow>
   withTimer n cb w = (Inl (NotFound n), w)"
  by (simp add: withTimer_def get_absent)

lemma pauseTimer_found:
  assumes "map_of (state w) n = Some t"
  shows "pauseTimer n w =
     (if \<not> running t then (Inr None, logger Warn (AlreadyPaused (name t)) w)
      else (Inr (Some (t\<lparr>running := False\<rparr>)),
            emit ''timerPaused'' (TimerPayload (t\<lparr>running := False\<rparr>))
              (dispatch (SetTimerData (name t) (t\<lparr>running := False\<rparr>))
                (logger Info (Pausing (name t)) w))))"
  using assms by (simp add: pauseTimer_def withTimer_found Let_def)

lemma resumeTimer_found:
  assumes "map_of (state w) n = Some t"
  shows "resumeTimer n w =
     (if running t then (Inr None, logger Warn (AlreadyRunning (name t)) w)
      else (let t' = t\<lparr>running := True, timestamp := Some (clock w (reads w))\<rparr>
            in (Inr (Some t'),
                emit ''timerResumed'' (TimerPayload t')
                  (dispatch (SetTimerData (name t) t')
                    ((logger Info (Resuming (name t)) w)\<lparr>reads := Suc (reads w)\<rparr>)))))"
  using assms by (simp add: resumeTimer_def withTimer_found Let_def getTime_def logger_def)

lemma resetTimer_found:
  assumes "map_of (state w) n = Some t"
  shows "resetTimer ar n p w =
     (case reset_record ar t of
        None \<Rightarrow>
          (Inl (if get (timerResetFunctions ar) (type t) = NoMember then TypeError
                else Inherited (type t)),
           logger Info (Resetting (name t)) w)
      | Some r \<Rightarrow>
          (let t' = r\<lparr>running := \<not> pauses p, elapsed := False\<rparr>
           in (Inr t',
               emit ''timerReset'' (TimerPayload t')
                 (dispatch (SetTimerData (name t) t') (logger Info (Resetting (name t)) w)))))"
  using assms
  by (cases "get (timerResetFunctions ar) (type t)")
    (auto simp: resetTimer_def withTimer_found Let_def pauses_def reset_record_def
      timerResetFunctions_frame)

lemma missing:
  assumes "map_of (state w) n = None"
  shows "snd (pauseTimer n w) = w" "snd (resumeTimer n w) = w" "snd (toggleTimer n w) = w"
    "snd (resetTimer ar n p w) = w" "snd (deleteTimer n w) = w"
  using assms
  by (simp_all add: pauseTimer_def resumeTimer_def toggleTimer_def resetTimer_def deleteTimer_def
      withTimer_missing Let_def)

lemma not_found:
  assumes "map_of (state w) n = None" "\<not> List.member inherited n"
  shows "pauseTimer n w = (Inl (NotFound n), w)" "resumeTimer n w = (Inl (NotFound n), w)"
    "toggleTimer n w = (Inl (NotFound n), w)" "resetTimer ar n p w = (Inl (NotFound n), w)"
    "deleteTimer n w = (Inl (NotFound n), w)"
  using assms
  by (simp_all add: pauseTimer_def resumeTimer_def toggleTimer_def resetTimer_def deleteTimer_def
      withTimer_absent Let_def)

lemma toggleTimer_found:
  assumes "map_of (state w) n = Some t"
  shows "toggleTimer n w = (if running t then pauseTimer n w else resumeTimer n w)"
  using assms by (simp add: toggleTimer_def withTimer_found Let_def)

lemma pauseTimer_state:
  assumes "keys_named (state w)"
  shows "map_of (state (snd (pauseTimer m w))) =
     (case map_of (state w) m of
        None \<Rightarrow> map_of (state w)
      | Some t \<Rightarrow> if running t then (map_of (state w))(m \<mapsto> t\<lparr>running := False\<rparr>)
                  else map_of (state w))"
proof (cases "map_of (state w) m")
  case None
  then show ?thesis by (simp add: missing)
next
  case (Some t)
  with keys_named_lookup[OF assms Some] show ?thesis
    by (simp add: pauseTimer_found[OF Some] logger_def dispatch_def emit_def pluginReducer_def
        update_conv')
qed

lemma resumeTimer_state:
  assumes "keys_named (state w)"
  shows "map_of (state (snd (resumeTimer m w))) =
     (case map_of (state w) m of
        None \<Rightarrow> map_of (state w)
      | Some t \<Rightarrow>
          if running t then map_of (state w)
          else (map_of (state w))
                 (m \<mapsto> t\<lparr>running := True, timestamp := Some (clock w (reads w))\<rparr>))"
proof (cases "map_of (state w) m")
  case None
  then show ?thesis by (simp add: missing)
next
  case (Some t)
  with keys_named_lookup[OF assms Some] show ?thesis
    by (simp add: resumeTimer_found[OF Some] logger_def dispatch_def emit_def pluginReducer_def
        update_conv' Let_def)
qed

lemma toggleTimer_state:
  assumes "keys_named (state w)"
  shows "map_of (state (snd (toggleTimer m w))) =
     (case map_of (state w) m of
        None \<Rightarrow> map_of (state w)
      | Some t \<Rightarrow>
          if running t then (map_of (state w))(m \<mapsto> t\<lparr>running := False\<rparr>)
          else (map_of (state w))
                 (m \<mapsto> t\<lparr>running := True, timestamp := Some (clock w (reads w))\<rparr>))"
proof (cases "map_of (state w) m")
  case None
  then show ?thesis by (simp add: missing)
next
  case (Some t)
  then show ?thesis
    by (simp add: toggleTimer_found[OF Some] pauseTimer_state[OF assms] resumeTimer_state[OF assms])
qed

lemma resetTimer_state:
  assumes "keys_named (state w)"
  shows "map_of (state (snd (resetTimer ar m p w))) =
     (case map_of (state w) m of
        None \<Rightarrow> map_of (state w)
      | Some t \<Rightarrow>
          (case reset_record ar t of
             None \<Rightarrow> map_of (state w)
           | Some r \<Rightarrow> (map_of (state w))(m \<mapsto> r\<lparr>running := \<not> pauses p, elapsed := False\<rparr>)))"
proof (cases "map_of (state w) m")
  case None
  then show ?thesis by (simp add: missing)
next
  case (Some t)
  with keys_named_lookup[OF assms Some] show ?thesis
    by (simp add: resetTimer_found[OF Some] logger_def dispatch_def emit_def pluginReducer_def
        update_conv' Let_def split: option.splits)
qed

lemma deleteTimer_state:
  assumes "keys_named (state w)"
  shows "map_of (state (snd (deleteTimer m w))) = (map_of (state w))(m := None)"
proof (cases "map_of (state w) m")
  case None
  then show ?thesis by (auto simp: missing)
next
  case (Some t)
  with keys_named_lookup[OF assms Some] show ?thesis
    by (simp add: deleteTimer_def withTimer_found logger_def dispatch_def emit_def
        pluginReducer_def delete_conv' Let_def)
qed

lemma tables_agree:
  "get (timerFunctions ar) ty = NoMember \<longleftrightarrow> get (timerResetFunctions ar) ty = NoMember"
  by (simp add: get_timerFunctions get_timerResetFunctions)

lemma createTimer_cases:
  "(\<exists>e w'. createTimer ar parse n ty dur w = (Inl e, w') \<and> state w' = state w \<and>
       dispatched w' = dispatched w \<and> emitted w' = emitted w) \<or>
   (\<exists>d t. map_of (state w) n = None \<and> \<not> List.member inherited n \<and>
       created ar n ty d = Some t \<and>
       (case dur of DString s \<Rightarrow> (\<exists>secs. parse s = Inr secs \<and> d = js_mul ar secs (js_thousand ar))
                  | DNumber x \<Rightarrow> d = x | DOther \<Rightarrow> False) \<and>
       fst (createTimer ar parse n ty dur w) = Inr t \<and>
       state (snd (createTimer ar parse n ty dur w)) = AList.update n t (state w) \<and>
       dispatched (snd (createTimer ar parse n ty dur w)) = dispatched w @ [SetTimerData n t] \<and>
       emitted (snd (createTimer ar parse n ty dur w)) =
         emitted w @ [(''timerCreated'', TimerPayload t)])"
proof (cases "get (state w) n = NoMember")
  case False
  then show ?thesis by (simp add: createTimer_def timers_def)
next
  case True
  then have free: "map_of (state w) n = None" "\<not> List.member inherited n"
    by (simp_all add: get_NoMember)
  show ?thesis
    using True free
    by (cases dur; cases "get (timerResetFunctions ar) ty")
      (auto simp: createTimer_def timers_def Let_def logger_def dispatch_def emit_def
        pluginReducer_def created_def reset_record_def timerResetFunctions_frame
        tables_agree split: sum.splits)
qed

lemma created_frame:
  assumes "created ar n ty d = Some t"
  shows "name t = n" "type t = ty" "\<not> running t" "\<not> elapsed t" "timestamp t = None"
    "duration t = d"
  using reset_record_frame[OF assms[unfolded created_def]] by simp_all

lemma keys_named_operations:
  assumes "keys_named (state w)"
  shows "keys_named (state (snd (createTimer ar parse n ty dur w)))"
    "keys_named (state (snd (deleteTimer n w)))"
    "keys_named (state (snd (resetTimer ar n p w)))"
    "keys_named (state (snd (pauseTimer n w)))"
    "keys_named (state (snd (resumeTimer n w)))"
    "keys_named (state (snd (toggleTimer n w)))"
proof -
  show "keys_named (state (snd (createTimer ar parse n ty dur w)))"
    using createTimer_cases[of ar parse n ty dur w] assms
    by (auto simp: created_frame intro!: keys_named_update)
  show "keys_named (state (snd (deleteTimer n w)))"
  proof (cases "map_of (state w) n")
    case None
    then show ?thesis using assms by (simp add: missing)
  next
    case (Some t)
    then show ?thesis
      using assms
      by (auto simp: deleteTimer_def withTimer_found logger_def dispatch_def emit_def
          pluginReducer_def Let_def intro!: keys_named_delete)
  qed
  show "keys_named (state (snd (resetTimer ar n p w)))"
    using assms
    by (cases "map_of (state w) n")
      (auto simp: missing resetTimer_found logger_def dispatch_def emit_def pluginReducer_def
        Let_def reset_record_frame intro!: keys_named_update split: option.splits)
  show p: "keys_named (state (snd (pauseTimer n w)))"
    using assms
    by (cases "map_of (state w) n")
      (auto simp: missing pauseTimer_found logger_def dispatch_def emit_def pluginReducer_def
        intro!: keys_named_update)
  show r: "keys_named (state (snd (resumeTimer n w)))"
    using assms
    by (cases "map_of (state w) n")
      (auto simp: missing resumeTimer_found logger_def dispatch_def emit_def pluginReducer_def
        Let_def intro!: keys_named_update)
  show "keys_named (state (snd (toggleTimer n w)))"
    using p r assms
    by (cases "map_of (state w) n") (auto simp: missing toggleTimer_found)
qed

text \<open>Hence every world the model reaches keeps its timers under their names.\<close>

lemma reachable_keys_named: "reachable ar w \<Longrightarrow> keys_named (state w)"
proof (induction rule: reachable.induct)
  case (initial w)
  then show ?case by (simp add: keys_named_def)
qed (simp_all add: keys_named_handleTimers keys_named_operations)

section \<open>One tick of a running timer\<close>

text \<open>
  Claim C1. A running timer of type incrementing or decrementing is advanced by its update
  rule: with \<open>now\<close> the clock reading and gap \<open>g = now - timestamp\<close>, an incrementing
  timer gets \<open>value + g\<close>, a decrementing one \<open>value - g\<close>; the timestamp becomes
  \<open>now\<close>; the elapsed flag is recomputed from the new value (\<open>value > duration\<close>,
  respectively \<open>value < 0\<close>); name, type, running and duration stay as they were, and
  the loop iteration stores that record under the timer's name. The operations are those
  of the code's numbers, whatever they are; a timestamp or value that the record does not
  have enters them as NaN.
\<close>

theorem tick_update_rule:
  assumes "running timer"
  shows
    "let now = clock w (reads w);
         g = js_sub ar now (to_number ar (timestamp timer));
         up = js_add ar (to_number ar (value timer)) g;
         down = js_sub ar (to_number ar (value timer)) g
     in (type timer = ''incrementing'' \<longrightarrow>
           get (timerFunctions ar) (type timer) = Own (incrementing ar) \<and>
           incrementing ar now timer =
             timer\<lparr>timestamp := Some now, value := Some up,
                   elapsed := js_gt ar up (duration timer)\<rparr> \<and>
           map_of (state (handle_timer ar timer w)) (name timer) =
             Some (incrementing ar now timer)) \<and>
        (type timer = ''decrementing'' \<longrightarrow>
           get (timerFunctions ar) (type timer) = Own (decrementing ar) \<and>
           decrementing ar now timer =
             timer\<lparr>timestamp := Some now, value := Some down,
                   elapsed := js_lt ar down (js_zero ar)\<rparr> \<and>
           map_of (state (handle_timer ar timer w)) (name timer) =
             Some (decrementing ar now timer))"
  using assms
  by (auto simp: Let_def handle_timer_state written_def advanced_def get_timerFunctions
      incrementing_def decrementing_def to_number_def)

theorem tick_update_rule_witness:
  "running sample_timer \<and> type sample_timer = ''incrementing'' \<and>
   incrementing whole (Whole 1096) sample_timer =
     sample_timer\<lparr>timestamp := Some (Whole 1096), value := Some (Whole 5086), elapsed := True\<rparr> \<and>
   map_of (state (handle_timer whole sample_timer sample_world)) ''t'' =
     Some (sample_timer\<lparr>timestamp := Some (Whole 1096), value := Some (Whole 5086),
                        elapsed := True\<rparr>)"
  using tick_update_rule[where timer = sample_timer and ar = whole and w = sample_world]
  by (simp add: sample_timer_def sample_world_def sample_clock_def Let_def whole_def
      to_number_def exact_def)

section \<open>The elapsed notification\<close>

text \<open>
  Claim C2. In one tick, the \<open>timerElapsed\<close> notifications raised for a timer are: exactly
  one, carrying the new record, if the tick changes the timer's elapsed flag from false to
  true; none otherwise (the timer stays elapsed, stops being elapsed, stays not elapsed,
  or is not advanced at all).
\<close>

theorem elapsed_notification_edge:
  assumes "keys_named (state w)" "map_of (state w) n = Some t"
  shows "\<exists>t'. map_of (state (handleTimers ar w)) n = Some t' \<and>
     filter (elapsed_for n) (drop (length (emitted w)) (emitted (handleTimers ar w))) =
       (if \<not> elapsed t \<and> elapsed t' then [(''timerElapsed'', TimerPayload t')] else [])"
  using tick_state[OF assms] tick_new_events[OF assms]
  by (auto simp: crossing_def)

theorem elapsed_notification_edge_witness:
  "keys_named (state sample_world) \<and> map_of (state sample_world) ''t'' = Some sample_timer \<and>
   (\<exists>t'. map_of (state (handleTimers whole sample_world)) ''t'' = Some t' \<and>
     filter (elapsed_for ''t'')
       (drop (length (emitted sample_world)) (emitted (handleTimers whole sample_world))) =
       (if \<not> elapsed sample_timer \<and> elapsed t' then [(''timerElapsed'', TimerPayload t')] else []))"
proof -
  have k: "keys_named (state sample_world)"
    by (simp add: keys_named_def sample_world_def sample_timer_def)
  have m: "map_of (state sample_world) ''t'' = Some sample_timer"
    by (simp add: sample_world_def)
  show ?thesis using k m elapsed_notification_edge[OF k m] by simp
qed

section \<open>Creating a timer under a name in use\<close>

text \<open>
  Claim C4. If a timer named \<open>n\<close> exists, \<open>createTimer\<close> for \<open>n\<close> fails with the
  already-exists error, whatever the type and duration, and nothing changes: the store,
  the dispatched actions, the notifications, the log and the clock are as before.
\<close>

theorem createTimer_duplicate:
  assumes "map_of (state w) n = Some t"
  shows "createTimer ar parse n ty dur w = (Inl (AlreadyExists n), w)"
  using assms by (simp add: createTimer_def timers_def get_found)

theorem createTimer_duplicate_witness:
  "map_of (state sample_world) ''t'' = Some sample_timer \<and>
   createTimer whole no_parse ''t'' ''decrementing'' (DNumber (Whole 1000)) sample_world =
     (Inl (AlreadyExists ''t''), sample_world)"
proof -
  have m: "map_of (state sample_world) ''t'' = Some sample_timer"
    by (simp add: sample_world_def)
  show ?thesis using m createTimer_duplicate[OF m] by simp
qed

section \<open>Reset\<close>



section \<open>Resume, and pause followed by resume\<close>

text \<open>
  Claim C6. For an existing timer that is not running, \<open>resumeTimer\<close> returns, stores,
  dispatches and announces the record with \<open>running\<close> true and the timestamp set to the
  clock reading; value, elapsed, name, type and duration are those of the record before.
  Hence pausing a running timer and then resuming it gives a record with the value it had
  before the pause.
\<close>

theorem resumeTimer_record:
  assumes "keys_named (state w)" and "map_of (state w) n = Some t"
  shows
    "(\<not> running t \<longrightarrow>
        (let t' = t\<lparr>running := True, timestamp := Some (clock w (reads w))\<rparr>;
             w' = snd (resumeTimer n w)
         in fst (resumeTimer n w) = Inr (Some t') \<and>
            map_of (state w') n = Some t' \<and>
            dispatched w' = dispatched w @ [SetTimerData n t'] \<and>
            emitted w' = emitted w @ [(''timerResumed'', TimerPayload t')] \<and>
            value t' = value t \<and> elapsed t' = elapsed t \<and> name t' = name t \<and>
            type t' = type t \<and> duration t' = duration t)) \<and>
     (running t \<longrightarrow>
        (let w1 = snd (pauseTimer n w);
             t2 = t\<lparr>timestamp := Some (clock w (reads w))\<rparr>
         in fst (pauseTimer n w) = Inr (Some (t\<lparr>running := False\<rparr>)) \<and>
            fst (resumeTimer n w1) = Inr (Some t2) \<and>
            map_of (state (snd (resumeTimer n w1))) n = Some t2 \<and>
            value t2 = value t))"
proof -
  have nm: "name t = n" using keys_named_lookup[OF assms] by simp
  have k1: "keys_named (state (snd (pauseTimer n w)))"
    using keys_named_operations(4)[OF assms(1)] .
  have a: "\<not> running t \<Longrightarrow> ?thesis"
  proof -
    assume r: "\<not> running t"
    have st: "map_of (state (snd (resumeTimer n w))) n =
        Some (t\<lparr>running := True, timestamp := Some (clock w (reads w))\<rparr>)"
      using assms(2) r by (simp add: resumeTimer_state[OF assms(1)])
    have res: "resumeTimer n w =
        (let t' = t\<lparr>running := True, timestamp := Some (clock w (reads w))\<rparr>
            in (Inr (Some t'),
                emit ''timerResumed'' (TimerPayload t')
                  (dispatch (SetTimerData n t')
                    ((logger Info (Resuming n) w)\<lparr>reads := Suc (reads w)\<rparr>))))"
      using r nm by (simp add: resumeTimer_found[OF assms(2)] Let_def)
    have out: "dispatched (snd (resumeTimer n w)) = dispatched w @
          [SetTimerData n (t\<lparr>running := True, timestamp := Some (clock w (reads w))\<rparr>)]"
      "emitted (snd (resumeTimer n w)) = emitted w @
          [(''timerResumed'',
            TimerPayload (t\<lparr>running := True, timestamp := Some (clock w (reads w))\<rparr>))]"
      "fst (resumeTimer n w) =
        Inr (Some (t\<lparr>running := True, timestamp := Some (clock w (reads w))\<rparr>))"
      by (simp_all add: res Let_def emit_def dispatch_def logger_def)
    show ?thesis using r st out by (simp add: Let_def)
  qed
  have b: "running t \<Longrightarrow> ?thesis"
  proof -
    assume r: "running t"
    have s1: "map_of (state (snd (pauseTimer n w))) n = Some (t\<lparr>running := False\<rparr>)"
      using assms(2) r by (simp add: pauseTimer_state[OF assms(1)])
    have c1: "clock (snd (pauseTimer n w)) = clock w" "reads (snd (pauseTimer n w)) = reads w"
      using assms(2) r
      by (simp_all add: pauseTimer_found logger_def dispatch_def emit_def)
    have same: "t\<lparr>running := True, timestamp := Some (clock w (reads w))\<rparr> =
        t\<lparr>timestamp := Some (clock w (reads w))\<rparr>"
      using r by (intro timer.equality) simp_all
    have p: "fst (pauseTimer n w) = Inr (Some (t\<lparr>running := False\<rparr>))"
      using r by (simp add: pauseTimer_found[OF assms(2)])
    have st: "map_of (state (snd (resumeTimer n (snd (pauseTimer n w))))) n =
        Some (t\<lparr>timestamp := Some (clock w (reads w))\<rparr>)"
      using s1 c1 same by (simp add: resumeTimer_state[OF k1])
    have res: "fst (resumeTimer n (snd (pauseTimer n w))) =
        Inr (Some (t\<lparr>timestamp := Some (clock w (reads w))\<rparr>))"
      using c1 same by (simp add: resumeTimer_found[OF s1] Let_def)
    show ?thesis using r p st res by (simp add: Let_def)
  qed
  from a b show ?thesis by blast
qed

theorem resumeTimer_record_witness:
  "keys_named (state sample_world) \<and> map_of (state sample_world) ''t'' = Some sample_timer \<and>
   running sample_timer \<and>
   fst (resumeTimer ''t'' (snd (pauseTimer ''t'' sample_world))) =
     Inr (Some (sample_timer\<lparr>timestamp := Some (Whole 1096)\<rparr>)) \<and>
   value (sample_timer\<lparr>timestamp := Some (Whole 1096)\<rparr>) = Some (Whole 4990)"
proof -
  have k: "keys_named (state sample_world)"
    by (simp add: keys_named_def sample_world_def sample_timer_def)
  have m: "map_of (state sample_world) ''t'' = Some sample_timer"
    by (simp add: sample_world_def)
  show ?thesis
    using k m resumeTimer_record[OF k m]
    by (simp add: Let_def sample_timer_def sample_world_def sample_clock_def)
qed

section \<open>Toggle\<close>

text \<open>
  Claim C7. For an existing timer, \<open>toggleTimer\<close> is \<open>pauseTimer\<close> if the timer is running
  and \<open>resumeTimer\<close> if it is not: the same return value and the same resulting world
  (store, dispatched actions, notifications, log, clock). It always returns a new record
  and logs no warning: the branches of pause and resume that do nothing are not reached.
\<close>

theorem toggleTimer_is_pause_or_resume:
  assumes "map_of (state w) n = Some t"
  shows "toggleTimer n w = (if running t then pauseTimer n w else resumeTimer n w) \<and>
     (\<exists>t'. fst (toggleTimer n w) = Inr (Some t') \<and> running t' = (\<not> running t) \<and>
           dispatched (snd (toggleTimer n w)) = dispatched w @ [SetTimerData (name t) t']) \<and>
     logged (snd (toggleTimer n w)) =
       logged w @ [(Info, if running t then Pausing (name t) else Resuming (name t))]"
  using assms
  by (simp add: toggleTimer_found pauseTimer_found resumeTimer_found Let_def logger_def
      dispatch_def emit_def)

theorem toggleTimer_is_pause_or_resume_witness:
  "map_of (state sample_world) ''t'' = Some sample_timer \<and>
   toggleTimer ''t'' sample_world = pauseTimer ''t'' sample_world \<and>
   fst (toggleTimer ''t'' sample_world) = Inr (Some (sample_timer\<lparr>running := False\<rparr>))"
proof -
  have m: "map_of (state sample_world) ''t'' = Some sample_timer"
    by (simp add: sample_world_def)
  have r: "running sample_timer" by (simp add: sample_timer_def)
  show ?thesis
    using m toggleTimer_is_pause_or_resume[OF m] r
    by (simp add: pauseTimer_found[OF m])
qed

section \<open>Timers that are not running\<close>

lemma createTimer_state:
  "map_of (state (snd (createTimer ar parse m ty dur w))) k = map_of (state w) k \<or>
   (k = m \<and> map_of (state w) k = None \<and>
    (\<exists>t. fst (createTimer ar parse m ty dur w) = Inr t \<and>
         map_of (state (snd (createTimer ar parse m ty dur w))) k = Some t \<and>
         \<not> running t \<and> timestamp t = None))"
  using createTimer_cases[of ar parse m ty dur w]
  by (auto simp: update_conv' created_frame split: if_splits)

lemma tick_iterated:
  assumes "keys_named (state w)" "map_of (state w) n = Some t" "\<not> running t"
  shows "keys_named (state ((handleTimers ar ^^ k) w)) \<and>
         map_of (state ((handleTimers ar ^^ k) w)) n = Some t"
proof (induction k)
  case 0
  show ?case using assms by simp
next
  case (Suc k)
  then have kn: "keys_named (state ((handleTimers ar ^^ k) w))"
    and m: "map_of (state ((handleTimers ar ^^ k) w)) n = Some t"
    by simp_all
  show ?case
    using keys_named_handleTimers[OF kn] tick_state[OF kn m] assms(3)
    by (simp add: advanced_def)
qed

text \<open>
  Claim C3, amended. A timer that is not running is left as it is by a tick, and by any
  number of ticks. The running flag is turned on only by \<open>resumeTimer\<close> (also reached
  through \<open>toggleTimer\<close>) and by \<open>resetTimer\<close> called with a \<open>pause\<close> that counts as false
  and is not left out (\<open>false\<close>, \<open>null\<close>, \<open>0\<close>, the empty string, NaN): ticks, create,
  delete, pause, reset with any other \<open>pause\<close>, and resume, toggle or reset of another
  timer leave a timer that is not running not running. This is stated where the model
  follows the code: for a store whose timers have followed types, for operations addressed
  to an existing timer or to a name under which the store has no member at all, and for
  creation with a followed type.
\<close>

theorem paused_timer_stays_paused:
  assumes "keys_named (state w)" and "types_followed (state w)"
    and "map_of (state w) n = Some t" and "\<not> running t"
  shows
    "map_of (state ((handleTimers ar ^^ k) w)) n = Some t \<and>
     (followed ty \<longrightarrow> \<not> is_running (state (snd (createTimer ar parse m ty dur w))) n) \<and>
     (\<not> reads_inherited (state w) m \<longrightarrow>
        \<not> is_running (state (snd (deleteTimer m w))) n \<and>
        \<not> is_running (state (snd (pauseTimer m w))) n \<and>
        (pauses p \<longrightarrow> \<not> is_running (state (snd (resetTimer ar m p w))) n) \<and>
        (m \<noteq> n \<longrightarrow> \<not> is_running (state (snd (resetTimer ar m p w))) n \<and>
                    \<not> is_running (state (snd (resumeTimer m w))) n \<and>
                    \<not> is_running (state (snd (toggleTimer m w))) n)) \<and>
     is_running (state (snd (resumeTimer n w))) n \<and>
     is_running (state (snd (toggleTimer n w))) n \<and>
     (\<not> pauses p \<and> reset_record ar t \<noteq> None \<longrightarrow>
        is_running (state (snd (resetTimer ar n p w))) n)"
proof -
  note kn = assms(1)
  have nr: "\<not> is_running (state w) n"
    using assms(3,4) by (simp add: is_running_def)
  have ticks: "map_of (state ((handleTimers ar ^^ k) w)) n = Some t"
    using tick_iterated[OF assms(1,3,4)] by simp
  have c: "\<not> is_running (state (snd (createTimer ar parse m ty dur w))) n"
    using createTimer_state[of ar parse m ty dur w n] nr by (auto simp: is_running_def)
  have d: "\<not> is_running (state (snd (deleteTimer m w))) n"
    using nr by (simp add: is_running_def deleteTimer_state[OF kn])
  have pa: "\<not> is_running (state (snd (pauseTimer m w))) n"
    using nr by (auto simp: is_running_def pauseTimer_state[OF kn] split: option.splits)
  have re: "pauses p \<Longrightarrow> \<not> is_running (state (snd (resetTimer ar m p w))) n"
    using nr
    by (auto simp: is_running_def resetTimer_state[OF kn] split: option.splits)
  have other: "m \<noteq> n \<Longrightarrow> \<not> is_running (state (snd (resetTimer ar m p w))) n \<and>
                 \<not> is_running (state (snd (resumeTimer m w))) n \<and>
                 \<not> is_running (state (snd (toggleTimer m w))) n"
    using nr
    by (auto simp: is_running_def resetTimer_state[OF kn] resumeTimer_state[OF kn]
        toggleTimer_state[OF kn] split: option.splits)
  have on: "is_running (state (snd (resumeTimer n w))) n"
    "is_running (state (snd (toggleTimer n w))) n"
    "\<not> pauses p \<and> reset_record ar t \<noteq> None \<Longrightarrow>
       is_running (state (snd (resetTimer ar n p w))) n"
    using assms(3,4)
    by (auto simp: is_running_def resetTimer_state[OF kn] resumeTimer_state[OF kn]
        toggleTimer_state[OF kn])
  from ticks c d pa re other on show ?thesis by blast
qed

theorem paused_timer_stays_paused_witness:
  "keys_named (state fresh_world) \<and> types_followed (state fresh_world) \<and>
   followed ''incrementing'' \<and> \<not> reads_inherited (state fresh_world) ''u'' \<and>
   pauses Omitted \<and> \<not> pauses OtherFalsy \<and>
   (\<exists>t. map_of (state fresh_world) ''u'' = Some t \<and> \<not> running t \<and>
        map_of (state ((handleTimers whole ^^ 3) fresh_world)) ''u'' = Some t) \<and>
   \<not> is_running (state (snd (resetTimer whole ''u'' Omitted fresh_world))) ''u'' \<and>
   is_running (state (snd (resetTimer whole ''u'' OtherFalsy fresh_world))) ''u'' \<and>
   is_running (state (snd (resumeTimer ''u'' fresh_world))) ''u''"
proof -
  let ?t = "\<lparr>name = ''u'', type = ''decrementing'', running = False, elapsed = False,
             timestamp = None, value = Some (Whole 60000), duration = Whole 60000\<rparr>"
  have k: "keys_named (state fresh_world)"
    by (simp add: keys_named_def fresh_world_def)
  have f: "types_followed (state fresh_world)"
    by (simp add: types_followed_def followed_def fresh_world_def inherited_def)
  have m: "map_of (state fresh_world) ''u'' = Some ?t"
    by (simp add: fresh_world_def)
  have r: "\<not> running ?t" by simp
  have fo: "followed ''incrementing''" by (simp add: followed_def inherited_def)
  have ri: "\<not> reads_inherited (state fresh_world) ''u''"
    by (simp add: reads_inherited_def fresh_world_def)
  have p1: "pauses Omitted" and p2: "\<not> pauses OtherFalsy"
    by (simp_all add: pauses_def truthy_def)
  have rr: "reset_record whole ?t \<noteq> None"
    by (simp add: reset_record_def get_timerResetFunctions)
  note a = paused_timer_stays_paused[OF k f m r, where ar = whole and k = 3 and ty = "''incrementing''"
      and parse = no_parse and m = "''u''" and dur = "DNumber (Whole 1)" and p = Omitted]
  note b = paused_timer_stays_paused[OF k f m r, where ar = whole and k = 3 and ty = "''incrementing''"
      and parse = no_parse and m = "''u''" and dur = "DNumber (Whole 1)" and p = OtherFalsy]
  show ?thesis
    using k f m fo ri p1 p2 rr a b by simp
qed

text \<open>
  The claim as written also says that only an explicit resume sets \<open>running\<close>. Resetting a
  paused timer with \<open>pause\<close> false sets it too.
\<close>

theorem reset_starts_paused_timer:
  "map_option running (map_of (state paused_world) ''t'') = Some False \<and>
   map_option running
     (map_of (state (snd (resetTimer whole ''t'' (Boolean False) paused_world))) ''t'') =
     Some True"
  by (simp add: paused_world_def sample_timer_def resetTimer_def withTimer_def get_def Let_def
      timerResetFunctions_def reset_incrementing_def logger_def dispatch_def emit_def
      pluginReducer_def truthy_def)

section \<open>The duration\<close>

text \<open>
  Claim C9, amended. A timer's duration is the number it was created with: a numeric input
  as it is, with no check that it is non-negative or whole, or what the parser returns for
  a string, times 1000. No tick, reset, pause, resume or toggle changes the duration of
  any stored timer, and creating or deleting a timer leaves the durations of the others.
  This is stated where the model follows the code: for a store whose timers have followed
  types, for operations addressed to an existing timer or to a name under which the store
  has no member at all, and for creation with a followed type.
\<close>

theorem duration_fixed_at_creation:
  assumes "keys_named (state w)" and "types_followed (state w)"
  shows
    "(createTimer ar parse n ty dur w = (Inr t, w') \<longrightarrow>
        (case dur of
           DNumber x \<Rightarrow> duration t = x
         | DString s \<Rightarrow>
             (\<exists>secs. parse s = Inr secs \<and> duration t = js_mul ar secs (js_thousand ar))
         | DOther \<Rightarrow> False) \<and>
        map_option duration (map_of (state w') n) = Some (duration t)) \<and>
     map_option duration (map_of (state (handleTimers ar w)) k) =
       map_option duration (map_of (state w) k) \<and>
     (\<not> reads_inherited (state w) m \<longrightarrow>
        map_option duration (map_of (state (snd (resetTimer ar m p w))) k) =
          map_option duration (map_of (state w) k) \<and>
        map_option duration (map_of (state (snd (pauseTimer m w))) k) =
          map_option duration (map_of (state w) k) \<and>
        map_option duration (map_of (state (snd (resumeTimer m w))) k) =
          map_option duration (map_of (state w) k) \<and>
        map_option duration (map_of (state (snd (toggleTimer m w))) k) =
          map_option duration (map_of (state w) k) \<and>
        (k \<noteq> m \<longrightarrow>
           map_option duration (map_of (state (snd (deleteTimer m w))) k) =
             map_option duration (map_of (state w) k))) \<and>
     (followed ty \<and> k \<noteq> m \<longrightarrow>
        map_option duration (map_of (state (snd (createTimer ar parse m ty dur w))) k) =
          map_option duration (map_of (state w) k))"
proof -
  note kn = assms(1)
  have cr: "createTimer ar parse n ty dur w = (Inr t, w') \<Longrightarrow>
        (case dur of
           DNumber x \<Rightarrow> duration t = x
         | DString s \<Rightarrow>
             (\<exists>secs. parse s = Inr secs \<and> duration t = js_mul ar secs (js_thousand ar))
         | DOther \<Rightarrow> False) \<and>
        map_option duration (map_of (state w') n) = Some (duration t)"
    using createTimer_cases[of ar parse n ty dur w]
    by (auto simp: update_conv' created_frame split: duration_input.splits)
  have ti: "map_option duration (map_of (state (handleTimers ar w)) k) =
       map_option duration (map_of (state w) k)"
  proof (cases "map_of (state w) k")
    case None
    then show ?thesis by (simp add: tick_state_absent[OF kn])
  next
    case (Some u)
    then show ?thesis
      by (simp add: tick_state[OF kn Some] advanced_frame)
  qed
  have re: "map_option duration (map_of (state (snd (resetTimer ar m p w))) k) =
       map_option duration (map_of (state w) k)"
    by (auto simp: resetTimer_state[OF kn] reset_record_frame split: option.splits)
  have pa: "map_option duration (map_of (state (snd (pauseTimer m w))) k) =
       map_option duration (map_of (state w) k)"
    by (auto simp: pauseTimer_state[OF kn] split: option.splits)
  have rs: "map_option duration (map_of (state (snd (resumeTimer m w))) k) =
       map_option duration (map_of (state w) k)"
    by (auto simp: resumeTimer_state[OF kn] split: option.splits)
  have tg: "map_option duration (map_of (state (snd (toggleTimer m w))) k) =
       map_option duration (map_of (state w) k)"
    by (auto simp: toggleTimer_state[OF kn] split: option.splits)
  have others: "k \<noteq> m \<Longrightarrow>
        map_option duration (map_of (state (snd (createTimer ar parse m ty dur w))) k) =
          map_option duration (map_of (state w) k) \<and>
        map_option duration (map_of (state (snd (deleteTimer m w))) k) =
          map_option duration (map_of (state w) k)"
    using createTimer_state[of ar parse m ty dur w k]
    by (auto simp: deleteTimer_state[OF kn])
  from cr ti re pa rs tg others show ?thesis by blast
qed

theorem duration_fixed_at_creation_witness:
  "keys_named (state sample_world) \<and> types_followed (state sample_world) \<and>
   \<not> reads_inherited (state sample_world) ''t'' \<and>
   map_option duration (map_of (state (handleTimers whole sample_world)) ''t'') =
     Some (Whole 5000) \<and>
   map_option duration (map_of (state (snd (resetTimer whole ''t'' Omitted sample_world))) ''t'') =
     Some (Whole 5000) \<and>
   map_option duration (map_of (state (snd (toggleTimer ''t'' sample_world))) ''t'') =
     Some (Whole 5000)"
proof -
  have k: "keys_named (state sample_world)"
    by (simp add: keys_named_def sample_world_def sample_timer_def)
  have f: "types_followed (state sample_world)"
    by (simp add: types_followed_def followed_def sample_world_def sample_timer_def inherited_def)
  have ri: "\<not> reads_inherited (state sample_world) ''t''"
    by (simp add: reads_inherited_def sample_world_def)
  have d: "map_option duration (map_of (state sample_world) ''t'') = Some (Whole 5000)"
    by (simp add: sample_world_def sample_timer_def)
  show ?thesis
    using k f ri d
      duration_fixed_at_creation[OF k f, where ar = whole and parse = no_parse and n = "''t''"
        and ty = "''incrementing''" and dur = "DNumber (Whole 1)" and t = sample_timer
        and w' = sample_world and k = "''t''" and m = "''t''" and p = Omitted]
    by simp
qed

text \<open>
  The claim as written says that the duration is always non-negative. A numeric input is
  not checked: creating a timer with duration \<open>-5\<close> succeeds and stores \<open>-5\<close>.
\<close>

theorem negative_duration_accepted:
  "fst (createTimer whole no_parse ''u'' ''incrementing'' (DNumber (Whole (- 5))) sample_world) =
     Inr \<lparr>name = ''u'', type = ''incrementing'', running = False, elapsed = False,
          timestamp = None, value = Some (Whole 0), duration = Whole (- 5)\<rparr> \<and>
   map_option duration
     (map_of (state (snd (createTimer whole no_parse ''u'' ''incrementing''
        (DNumber (Whole (- 5))) sample_world))) ''u'') = Some (Whole (- 5))"
  by (simp add: createTimer_def timers_def sample_world_def get_def inherited_def
      timerFunctions_def timerResetFunctions_def reset_incrementing_def Let_def logger_def
      dispatch_def emit_def pluginReducer_def whole_def)

section \<open>A timer whose type is not registered\<close>

lemma agree_step:
  assumes "agree_without k w w0" "name t \<noteq> k"
  shows "agree_without k (handle_timer ar t w) (handle_timer ar t w0)"
  using assms
  by (simp add: agree_without_def handle_timer_store handle_timer_dispatched
      handle_timer_emitted handle_timer_reads delete_update)

lemma agree_skip:
  assumes "agree_without k w w0" "\<not> written ar t"
  shows "agree_without k (handle_timer ar t w) w0"
proof -
  from assms(2) have "\<not> active ar t" using active_written by blast
  moreover from assms(2) have "\<not> crossing ar now t" for now
    by (auto simp: crossing_def advanced_def written_def split: member.splits)
  ultimately show ?thesis
    using assms
    by (simp add: agree_without_def handle_timer_store handle_timer_dispatched
        handle_timer_emitted handle_timer_reads)
qed

lemma agree_fold:
  assumes "agree_without k w w0" "\<forall>t\<in>set ts. name t = k \<longrightarrow> \<not> written ar t"
  shows "agree_without k (fold (handle_timer ar) ts w)
           (fold (handle_timer ar) (filter (\<lambda>t. name t \<noteq> k) ts) w0)"
  using assms
proof (induction ts arbitrary: w w0)
  case Nil
  then show ?case by simp
next
  case (Cons a ts)
  then have rest: "\<forall>t\<in>set ts. name t = k \<longrightarrow> \<not> written ar t" by simp
  show ?case
  proof (cases "name a = k")
    case False
    then show ?thesis
      using Cons.IH[OF agree_step[OF Cons.prems(1) False] rest] by simp
  next
    case True
    with Cons.prems have "\<not> written ar a" by simp
    then show ?thesis
      using Cons.IH[OF agree_skip[OF Cons.prems(1)] rest] True by simp
  qed
qed

lemma values_filter:
  assumes "list_all (\<lambda>(j, t). name t = j) s"
  shows "map snd (filter (\<lambda>(j, t). k \<noteq> j) s) = filter (\<lambda>t. name t \<noteq> k) (map snd s)"
  using assms by (induction s) auto

lemma object_values_delete:
  assumes "keys_named s"
  shows "object_values (AList.delete k s) = filter (\<lambda>t. name t \<noteq> k) (object_values s)"
proof -
  let ?P = "\<lambda>(j, t::'a timer). k \<noteq> j"
  let ?xs = "sort_key index_of (filter is_indexed s) @ filter (\<lambda>e. \<not> is_indexed e) s"
  from assms have nm: "list_all (\<lambda>(j, t). name t = j) s" by (simp add: keys_named_def)
  have "set ?xs = set s" by auto
  with nm have nx: "list_all (\<lambda>(j, t). name t = j) ?xs" unfolding list_all_iff by blast
  have "sort_key index_of (filter is_indexed (filter ?P s)) @
        filter (\<lambda>e. \<not> is_indexed e) (filter ?P s) = filter ?P ?xs"
    by (simp add: filter_sort conj_commute cong: conj_cong)
  then have "object_values (AList.delete k s) = map snd (filter ?P ?xs)"
    by (simp add: object_values_def AList.delete_eq)
  also have "\<dots> = filter (\<lambda>t. name t \<noteq> k) (map snd ?xs)"
    by (rule values_filter[OF nx])
  finally show ?thesis by (simp add: object_values_def)
qed

lemma tick_without:
  assumes "keys_named (state w)" "map_of (state w) k = Some u" "\<not> written ar u"
  shows "agree_without k (handleTimers ar w) (handleTimers ar (without k w))"
proof -
  have only: "\<forall>t\<in>set (object_values (state w)). name t = k \<longrightarrow> \<not> written ar t"
  proof (intro ballI impI)
    fix t assume t: "t \<in> set (object_values (state w))" and n: "name t = k"
    from keys_named_entry[OF assms(1) t] n assms(2,3) show "\<not> written ar t" by simp
  qed
  have vals: "object_values (state (without k w)) =
      filter (\<lambda>t. name t \<noteq> k) (object_values (state w))"
    using assms(1) by (simp add: without_def object_values_delete)
  have start: "agree_without k w (without k w)"
    by (simp add: agree_without_def without_def)
  show ?thesis
    using agree_fold[OF start only] by (simp add: handleTimers_def vals)
qed

text \<open>
  A running timer whose type is no member of the table at all, own or inherited, is
  treated as the code intends: the tick logs the warning, leaves the record in the store,
  and dispatches nothing under its name. Every other timer gets what its own type gives
  it, and the store, the dispatched actions, the notifications and the clock are those of
  the same tick on the world from which the timer has been taken out.
\<close>

lemma missing_type_is_skipped:
  assumes "keys_named (state w)" and "map_of (state w) k = Some u"
    and "running u" and "get (timerFunctions ar) (type u) = NoMember"
  shows
    "(Warn, UnrecognizedType (name u) (type u))
        \<in> set (drop (length (logged w)) (logged (handleTimers ar w))) \<and>
     map_of (state (handleTimers ar w)) k = Some u \<and>
     k \<notin> action_key ` set (drop (length (dispatched w)) (dispatched (handleTimers ar w))) \<and>
     (\<forall>n t. n \<noteq> k \<and> map_of (state w) n = Some t \<longrightarrow>
        map_of (state (handleTimers ar w)) n =
          Some (advanced ar (clock w (reads w + read_index ar (object_values (state w)) n)) t)) \<and>
     agree_without k (handleTimers ar w) (handleTimers ar (without k w))"
proof -
  note kn = assms(1)
  from keys_named_lookup[OF assms(1,2)]
  have u: "u \<in> set (object_values (state w))" and nu: "name u = k" by simp_all
  have nw: "\<not> written ar u" using assms(4) by (simp add: written_def)
  have un: "unrecognized ar u" using assms(3,4) by (simp add: unrecognized_def)
  have warn: "(Warn, UnrecognizedType (name u) (type u))
        \<in> set (drop (length (logged w)) (logged (handleTimers ar w)))"
    using u un by (auto simp: handleTimers_def fold_logged)
  have kept: "map_of (state (handleTimers ar w)) k = Some u"
    using assms(4) by (simp add: tick_state[OF kn assms(2)] advanced_def)
  have nodisp:
    "k \<notin> action_key ` set (drop (length (dispatched w)) (dispatched (handleTimers ar w)))"
  proof
    assume in_k:
      "k \<in> action_key ` set (drop (length (dispatched w)) (dispatched (handleTimers ar w)))"
    obtain ds where ds: "dispatched (handleTimers ar w) = dispatched w @ ds"
      "action_key ` set ds \<subseteq> name ` {t \<in> set (object_values (state w)). written ar t}"
      using fold_dispatched[of ar "object_values (state w)" w] by (auto simp: handleTimers_def)
    from in_k ds(1) have "k \<in> action_key ` set ds" by simp
    with ds(2) have "k \<in> name ` {t \<in> set (object_values (state w)). written ar t}" by blast
    then obtain t where t: "t \<in> set (object_values (state w))" "written ar t" "name t = k"
      by auto
    from keys_named_entry[OF kn t(1)] t(3) assms(2) have "t = u" by simp
    with t(2) nw show False by simp
  qed
  have others: "\<forall>n t. n \<noteq> k \<and> map_of (state w) n = Some t \<longrightarrow>
        map_of (state (handleTimers ar w)) n =
          Some (advanced ar (clock w (reads w + read_index ar (object_values (state w)) n)) t)"
    by (auto simp: tick_state[OF kn])
  from warn kept nodisp others tick_without[OF kn assms(2) nw] show ?thesis by blast
qed

text \<open>
  Claim C8. The claim says that a tick which meets a timer whose type has no registered
  update rule logs a warning and persists nothing for that timer. The code decides this
  by the truth of \<open>timerFunctions[timer.type]\<close>, and under \<open>constructor\<close> the table
  inherits the function \<open>Object\<close>. For a running timer of that type the tick logs
  nothing and dispatches the record.
\<close>

theorem constructor_type_is_written:
  "map_of (timerFunctions whole) ''constructor'' = None \<and>
   get (timerFunctions whole) ''constructor'' = ObjectConstructor \<and>
   running constructor_timer \<and>
   logged (handleTimers whole constructor_world) = [] \<and>
   dispatched (handleTimers whole constructor_world) = [SetTimerData ''c'' constructor_timer]"
proof -
  have own: "map_of (timerFunctions whole) ''constructor'' = None"
    by (simp add: timerFunctions_def)
  have tick: "handleTimers whole constructor_world =
      dispatch (SetTimerData ''c'' constructor_timer) constructor_world"
    by (simp add: get_timerFunctions handleTimers_def handle_timer_def constructor_world_def
        constructor_timer_def object_values_def is_indexed_def array_index_def Let_def)
  show ?thesis
    using own tick
    by (simp add: get_timerFunctions dispatch_def constructor_world_def constructor_timer_def)
qed

text \<open>
  The store of that sample is what the code builds from an empty store by creating a timer
  of type \<open>constructor\<close> and resuming it.
\<close>

lemma constructor_world_built:
  "state (snd (resumeTimer ''c''
      (snd (createTimer whole no_parse ''c'' ''constructor'' (DNumber (Whole 5)) empty_world)))) =
   state constructor_world"
  by (simp add: createTimer_def timers_def empty_world_def get_def inherited_def
      timerFunctions_def timerResetFunctions_def Let_def logger_def dispatch_def emit_def
      pluginReducer_def resumeTimer_def withTimer_def getTime_def sample_clock_def
      constructor_world_def constructor_timer_def)

section \<open>Creation, and where a timestamp comes from\<close>

lemma tick_state_inactive:
  assumes "keys_named (state w)" "\<forall>u. map_of (state w) k = Some u \<longrightarrow> \<not> active ar u"
  shows "map_of (state (handleTimers ar w)) k = map_of (state w) k"
proof (cases "map_of (state w) k")
  case None
  then show ?thesis by (simp add: tick_state_absent[OF assms(1)])
next
  case (Some u)
  with assms(2) have "\<not> active ar u" by simp
  then show ?thesis
    using Some by (simp add: tick_state[OF assms(1) Some] advanced_idle)
qed

text \<open>
  For the two registered types a successful \<open>createTimer\<close> produces, stores, dispatches,
  announces and returns one record: the given name and type, the duration, \<open>running\<close>
  and \<open>elapsed\<close> false, the value set by the type's reset rule, and no timestamp.
\<close>

lemma createTimer_record_registered:
  assumes "createTimer ar parse n ty dur w = (Inr t, w')"
    and "ty = ''incrementing'' \<or> ty = ''decrementing''"
  shows
    "(\<exists>d. t = \<lparr>name = n, type = ty, running = False, elapsed = False, timestamp = None,
               value = Some (if ty = ''incrementing'' then js_zero ar else d), duration = d\<rparr>) \<and>
     map_of (state w') n = Some t \<and>
     dispatched w' = dispatched w @ [SetTimerData n t] \<and>
     emitted w' = emitted w @ [(''timerCreated'', TimerPayload t)]"
  using createTimer_cases[of ar parse n ty dur w] assms
  by (auto simp: update_conv' created_def reset_record_def get_timerResetFunctions
      reset_incrementing_def reset_decrementing_def)

text \<open>
  A record without a timestamp keeps being without one through create, delete, pause and
  reset, through resume and toggle of other timers, and through ticks in which its update
  rule does not run; only resuming it or a tick that advances it assigns one.
\<close>

lemma timestamp_stays_absent:
  assumes kn: "keys_named (state v)" and nt: "no_timestamp (state v) k"
  shows
    "no_timestamp (state (snd (createTimer ar parse m ty dur v))) k \<and>
     no_timestamp (state (snd (deleteTimer m v))) k \<and>
     no_timestamp (state (snd (pauseTimer m v))) k \<and>
     no_timestamp (state (snd (resetTimer ar m p v))) k \<and>
     (m \<noteq> k \<longrightarrow> no_timestamp (state (snd (resumeTimer m v))) k \<and>
                 no_timestamp (state (snd (toggleTimer m v))) k) \<and>
     ((\<forall>u. map_of (state v) k = Some u \<longrightarrow> \<not> active ar u) \<longrightarrow>
        no_timestamp (state (handleTimers ar v)) k)"
proof -
  have c: "no_timestamp (state (snd (createTimer ar parse m ty dur v))) k"
    using createTimer_state[of ar parse m ty dur v k] nt
    by (auto simp: no_timestamp_def)
  have d: "no_timestamp (state (snd (deleteTimer m v))) k"
    using nt by (simp add: no_timestamp_def deleteTimer_state[OF kn])
  have pa: "no_timestamp (state (snd (pauseTimer m v))) k"
    using nt by (auto simp: no_timestamp_def pauseTimer_state[OF kn] split: option.splits)
  have re: "no_timestamp (state (snd (resetTimer ar m p v))) k"
    using nt
    by (auto simp: no_timestamp_def resetTimer_state[OF kn] reset_record_frame
        split: option.splits)
  have rs: "m \<noteq> k \<Longrightarrow> no_timestamp (state (snd (resumeTimer m v))) k"
    using nt by (auto simp: no_timestamp_def resumeTimer_state[OF kn] split: option.splits)
  have tg: "m \<noteq> k \<Longrightarrow> no_timestamp (state (snd (toggleTimer m v))) k"
    using nt by (auto simp: no_timestamp_def toggleTimer_state[OF kn] split: option.splits)
  have ti: "\<forall>u. map_of (state v) k = Some u \<longrightarrow> \<not> active ar u \<Longrightarrow>
      no_timestamp (state (handleTimers ar v)) k"
    using nt by (simp add: no_timestamp_def tick_state_inactive[OF kn])
  from c d pa re rs tg ti show ?thesis by blast
qed

text \<open>
  Claim C10. The claim says that every successful \<open>createTimer\<close> stores and returns a
  record that has the type's reset value. The code accepts a type by the truth of
  \<open>timerFunctions[type]\<close>, and under \<open>constructor\<close> both tables inherit the function
  \<open>Object\<close>: the call succeeds, and \<open>Object\<close> as reset rule returns the new record as
  it is, so the record that is stored and returned has no value.
\<close>

theorem constructor_type_creates_without_value:
  "map_of (timerResetFunctions whole) ''constructor'' = None \<and>
   get (timerResetFunctions whole) ''constructor'' = ObjectConstructor \<and>
   fst (createTimer whole no_parse ''c'' ''constructor'' (DNumber (Whole 5)) empty_world) =
     Inr \<lparr>name = ''c'', type = ''constructor'', running = False, elapsed = False,
          timestamp = None, value = None, duration = Whole 5\<rparr> \<and>
   state (snd (createTimer whole no_parse ''c'' ''constructor'' (DNumber (Whole 5)) empty_world)) =
     [(''c'', \<lparr>name = ''c'', type = ''constructor'', running = False, elapsed = False,
               timestamp = None, value = None, duration = Whole 5\<rparr>)]"
  by (simp add: createTimer_def timers_def empty_world_def get_def inherited_def
      timerFunctions_def timerResetFunctions_def Let_def logger_def dispatch_def emit_def
      pluginReducer_def)

section \<open>The worlds the model reaches\<close>

lemma created_type:
  "created ar n ty d = Some t \<Longrightarrow>
   type t = ''incrementing'' \<or> type t = ''decrementing'' \<or> type t = ''constructor''"
  using created_frame(2)[of ar n ty d t]
  by (auto simp: created_def reset_record_def get_timerResetFunctions
      split: member.splits if_splits)

lemma types_kept:
  assumes "keys_named (state w)"
  shows
    "map_of (state (snd (deleteTimer m w))) k = Some t \<Longrightarrow>
       \<exists>u. map_of (state w) k = Some u \<and> type u = type t"
    "map_of (state (snd (resetTimer ar m p w))) k = Some t \<Longrightarrow>
       \<exists>u. map_of (state w) k = Some u \<and> type u = type t"
    "map_of (state (snd (pauseTimer m w))) k = Some t \<Longrightarrow>
       \<exists>u. map_of (state w) k = Some u \<and> type u = type t"
    "map_of (state (snd (resumeTimer m w))) k = Some t \<Longrightarrow>
       \<exists>u. map_of (state w) k = Some u \<and> type u = type t"
    "map_of (state (snd (toggleTimer m w))) k = Some t \<Longrightarrow>
       \<exists>u. map_of (state w) k = Some u \<and> type u = type t"
  by (auto simp: deleteTimer_state[OF assms] resetTimer_state[OF assms]
      pauseTimer_state[OF assms] resumeTimer_state[OF assms] toggleTimer_state[OF assms]
      reset_record_frame split: option.splits if_splits)

text \<open>
  \<open>createTimer\<close> stores a record only for the two registered types and for
  \<open>constructor\<close>, and no operation changes a type.
\<close>

lemma reachable_types:
  "reachable ar w \<Longrightarrow> map_of (state w) k = Some t \<Longrightarrow>
   type t = ''incrementing'' \<or> type t = ''decrementing'' \<or> type t = ''constructor''"
proof (induction arbitrary: k t rule: reachable.induct)
  case (initial w)
  then show ?case by simp
next
  case (tick w)
  note kn = reachable_keys_named[OF tick.hyps]
  show ?case
  proof (cases "map_of (state w) k")
    case None
    with tick.prems show ?thesis by (simp add: tick_state_absent[OF kn])
  next
    case (Some u)
    with tick.prems tick.IH[OF Some] show ?thesis
      by (auto simp: tick_state[OF kn Some] advanced_frame)
  qed
next
  case (create w parse n ty dur)
  show ?case
    using createTimer_cases[of ar parse n ty dur w] create.prems create.IH[of k t]
    by (auto simp: update_conv' split: if_splits dest: created_type)
next
  case (delete w n)
  from types_kept(1)[OF reachable_keys_named[OF delete.hyps] delete.prems]
  obtain u where "map_of (state w) k = Some u" "type u = type t" by blast
  with delete.IH[of k u] show ?case by simp
next
  case (reset w n p)
  from types_kept(2)[OF reachable_keys_named[OF reset.hyps] reset.prems]
  obtain u where "map_of (state w) k = Some u" "type u = type t" by blast
  with reset.IH[of k u] show ?case by simp
next
  case (pause w n)
  from types_kept(3)[OF reachable_keys_named[OF pause.hyps] pause.prems]
  obtain u where "map_of (state w) k = Some u" "type u = type t" by blast
  with pause.IH[of k u] show ?case by simp
next
  case (resume w n)
  from types_kept(4)[OF reachable_keys_named[OF resume.hyps] resume.prems]
  obtain u where "map_of (state w) k = Some u" "type u = type t" by blast
  with resume.IH[of k u] show ?case by simp
next
  case (toggle w n)
  from types_kept(5)[OF reachable_keys_named[OF toggle.hyps] toggle.prems]
  obtain u where "map_of (state w) k = Some u" "type u = type t" by blast
  with toggle.IH[of k u] show ?case by simp
qed

lemma reachable_types_followed:
  assumes "reachable ar w"
  shows "types_followed (state w)"
proof -
  have "followed (type t)" if "(k, t) \<in> set (state w)" for k t
  proof -
    from reachable_keys_named[OF assms] that have "map_of (state w) k = Some t"
      by (simp add: keys_named_def)
    from reachable_types[OF assms this] show ?thesis
      by (auto simp: followed_def inherited_def)
  qed
  then show ?thesis by (auto simp: types_followed_def list_all_iff)
qed

text \<open>
  A timer that is created and then reset with \<open>pause\<close> false runs without a timestamp.
  Its first tick subtracts a missing timestamp: the value becomes NaN, and the timer does
  not elapse.
\<close>

lemma reset_running_then_tick:
  "map_of (state (handleTimers whole (snd (resetTimer whole ''u'' (Boolean False) fresh_world))))
     ''u'' =
     Some \<lparr>name = ''u'', type = ''decrementing'', running = True, elapsed = False,
           timestamp = Some (Whole 1096), value = Some NaN, duration = Whole 60000\<rparr>"
proof -
  have r: "snd (resetTimer whole ''u'' (Boolean False) fresh_world) =
      fresh_world\<lparr>
        state := [(''u'', \<lparr>name = ''u'', type = ''decrementing'', running = True,
                          elapsed = False, timestamp = None, value = Some (Whole 60000),
                          duration = Whole 60000\<rparr>)],
        dispatched := [SetTimerData ''u''
                        \<lparr>name = ''u'', type = ''decrementing'', running = True,
                         elapsed = False, timestamp = None, value = Some (Whole 60000),
                         duration = Whole 60000\<rparr>],
        emitted := [(''timerReset'', TimerPayload
                        \<lparr>name = ''u'', type = ''decrementing'', running = True,
                         elapsed = False, timestamp = None, value = Some (Whole 60000),
                         duration = Whole 60000\<rparr>)],
        logged := [(Info, Resetting ''u'')]\<rparr>"
    by (simp add: fresh_world_def resetTimer_def withTimer_def get_def Let_def
        timerResetFunctions_def reset_decrementing_def logger_def dispatch_def emit_def
        pluginReducer_def truthy_def)
  show ?thesis
    unfolding r
    by (simp add: fresh_world_def handleTimers_def handle_timer_def get_timerFunctions
        object_values_def is_indexed_def array_index_def decrementing_def getTime_def
        sample_clock_def dispatch_def pluginReducer_def Let_def to_number_def whole_def)
qed


end
